theory Spec2Isabelle
  imports Complex_Main
begin

section \<open>Python strings and the library functions the renamer calls\<close>

text \<open>
  A Python \<open>str\<close> is a sequence of Unicode code points and \<open>len\<close> counts code points, so a
  string is modelled as a list of code points. \<open>str\<close> turns an ASCII literal into such a list.
\<close>

type_synonym codepoint = nat
type_synonym pystr = "codepoint list"

definition str :: "string \<Rightarrow> pystr" where
  "str s = map of_char s"

text \<open>
  The character classes of \<open>str.isspace\<close>, \<open>str.isdigit\<close>, \<open>str.lower\<close> and of the
  \<open>re\<close> classes \<open>\s\<close> and \<open>\w\<close> are written out for the ASCII range, where CPython fixes them:
  whitespace is 9..13, 28..31 and 32; \<open>\w\<close> is a letter, a digit or the underscore.
  Beyond ASCII they come from the Unicode character database of the interpreter, and
  \<open>SequenceMatcher(None, a, b).ratio()\<close> comes from \<open>difflib\<close>; neither is code of the
  repository, so both are parameters of the model, collected in \<open>runtime\<close>. Every theorem
  below that quantifies over the runtime holds for whatever these library functions compute.

  \<open>str.lower\<close> works character by character: an ASCII character becomes its ASCII lowercase
  form whatever surrounds it; a character beyond ASCII becomes the code points its Unicode
  lowercase mapping gives, which can be several and for some letters (the Greek capital sigma)
  depend on the neighbours. \<open>uni_lower R s i\<close> is the lowercase form of the character at
  position \<open>i\<close> of the string \<open>s\<close>.
\<close>

record runtime =
  uni_isspace :: "codepoint \<Rightarrow> bool"
  uni_isalnum :: "codepoint \<Rightarrow> bool"
  uni_isdigit :: "codepoint \<Rightarrow> bool"
  uni_lower :: "pystr \<Rightarrow> nat \<Rightarrow> pystr"
  ratio :: "pystr \<Rightarrow> pystr \<Rightarrow> rat"

definition is_ascii :: "codepoint \<Rightarrow> bool" where
  "is_ascii c = (c < 128)"

definition isspace :: "runtime \<Rightarrow> codepoint \<Rightarrow> bool" where
  "isspace R c =
     (if is_ascii c then (9 \<le> c \<and> c \<le> 13) \<or> (28 \<le> c \<and> c \<le> 32) else uni_isspace R c)"

definition isdigit_char :: "runtime \<Rightarrow> codepoint \<Rightarrow> bool" where
  "isdigit_char R c = (if is_ascii c then 48 \<le> c \<and> c \<le> 57 else uni_isdigit R c)"

definition isalnum :: "runtime \<Rightarrow> codepoint \<Rightarrow> bool" where
  "isalnum R c =
     (if is_ascii c then (48 \<le> c \<and> c \<le> 57) \<or> (65 \<le> c \<and> c \<le> 90) \<or> (97 \<le> c \<and> c \<le> 122)
      else uni_isalnum R c)"

definition is_word :: "runtime \<Rightarrow> codepoint \<Rightarrow> bool" where
  "is_word R c = (isalnum R c \<or> c = 95)"

definition ascii_lower :: "codepoint \<Rightarrow> codepoint" where
  "ascii_lower c = (if 65 \<le> c \<and> c \<le> 90 then c + 32 else c)"

definition lower_at :: "runtime \<Rightarrow> pystr \<Rightarrow> nat \<Rightarrow> pystr" where
  "lower_at R s i = (if is_ascii (s ! i) then [ascii_lower (s ! i)] else uni_lower R s i)"

definition lower :: "runtime \<Rightarrow> pystr \<Rightarrow> pystr" where
  "lower R s = concat (map (lower_at R s) [0..<length s])"

definition isdigit :: "runtime \<Rightarrow> pystr \<Rightarrow> bool" where
  "isdigit R s = (s \<noteq> [] \<and> list_all (isdigit_char R) s)"

definition replace_char :: "codepoint \<Rightarrow> codepoint \<Rightarrow> pystr \<Rightarrow> pystr" where
  "replace_char old new s = map (\<lambda>c. if c = old then new else c) s"

definition strip :: "runtime \<Rightarrow> pystr \<Rightarrow> pystr" where
  "strip R s = rev (dropWhile (isspace R) (rev (dropWhile (isspace R) s)))"

text \<open>\<open>re.sub(r'[^\w\s]', ' ', text)\<close>: every character outside both classes becomes a space.\<close>

definition sub_special :: "runtime \<Rightarrow> pystr \<Rightarrow> pystr" where
  "sub_special R s = map (\<lambda>c. if is_word R c \<or> isspace R c then c else 32) s"

text \<open>
  \<open>re.sub(r'\s+', ' ', cleaned)\<close>: each maximal run of whitespace becomes one space. The flag
  says whether the previous character belonged to a run already replaced.
\<close>

fun sub_spaces :: "runtime \<Rightarrow> bool \<Rightarrow> pystr \<Rightarrow> pystr" where
  "sub_spaces R in_run [] = []"
| "sub_spaces R in_run (c # cs) =
     (if isspace R c then (if in_run then sub_spaces R True cs else 32 # sub_spaces R True cs)
      else c # sub_spaces R False cs)"

text \<open>\<open>re.findall(r'\w+', s)\<close>: the maximal runs of word characters, left to right.\<close>

fun findall_words :: "runtime \<Rightarrow> pystr \<Rightarrow> pystr \<Rightarrow> pystr list" where
  "findall_words R cur [] = (if cur = [] then [] else [cur])"
| "findall_words R cur (c # cs) =
     (if is_word R c then findall_words R (cur @ [c]) cs
      else (if cur = [] then [] else [cur]) @ findall_words R [] cs)"

section \<open>Text normalizer\<close>

text \<open>The argument is taken as a string already (\<open>str(text)\<close> is the identity on strings).\<close>

definition clean_text_for_matching :: "runtime \<Rightarrow> pystr \<Rightarrow> pystr" where
  "clean_text_for_matching R text =
     (let text1 = replace_char 46 32 (replace_char 45 32 (replace_char 95 32 text));
          cleaned = sub_special R text1;
          cleaned = lower R (strip R (sub_spaces R False cleaned))
      in cleaned)"

definition stop_words :: "pystr list" where
  "stop_words = map str
     [''the'', ''and'', ''for'', ''are'', ''but'', ''not'', ''you'', ''all'', ''can'', ''had'',
      ''her'', ''was'', ''one'', ''our'', ''out'', ''day'', ''get'', ''has'', ''him'', ''his'',
      ''how'', ''its'', ''may'', ''new'', ''now'', ''old'', ''see'', ''two'', ''way'', ''who'',
      ''boy'', ''did'', ''man'', ''end'', ''few'', ''got'', ''let'', ''put'', ''say'', ''she'',
      ''too'', ''use'']"

definition extract_meaningful_words :: "runtime \<Rightarrow> pystr \<Rightarrow> nat \<Rightarrow> pystr list" where
  "extract_meaningful_words R text min_length =
     (let cleaned = clean_text_for_matching R text;
          words = findall_words R [] (lower R cleaned)
      in filter (\<lambda>word. length word \<ge> min_length \<and> word \<notin> set stop_words \<and> \<not> isdigit R word)
           words)"

section \<open>Similarity primitives\<close>

text \<open>
  Scores are Python floats in the source. They are modelled as exact rationals: every score is a
  quotient of two lengths plus or times a decimal constant, and the thresholds are compared on
  the exact values; rounding of the binary representation is not modelled. Two scores that are
  equal as rationals can differ in the last bit as floats, so where two candidates of
  different strategies tie exactly, the source may keep the other one; the statements below
  fix the thresholds and the update rule, not the outcome of such a tie.
\<close>

definition similarity :: "runtime \<Rightarrow> pystr \<Rightarrow> pystr \<Rightarrow> rat" where
  "similarity R a b = ratio R (lower R a) (lower R b)"

definition calculate_word_overlap_score :: "pystr list \<Rightarrow> pystr list \<Rightarrow> rat" where
  "calculate_word_overlap_score pdf_words doc_words =
     (if pdf_words = [] \<or> doc_words = [] then 0
      else
        let pdf_set = set pdf_words;
            doc_set = set doc_words;
            intersection = pdf_set \<inter> doc_set;
            union = pdf_set \<union> doc_set
        in if union = {} then 0
           else
             let jaccard_score = of_nat (card intersection) / of_nat (card union);
                 match_bonus = min (of_nat (card intersection) * (1 / 10)) (3 / 10)
             in min (jaccard_score + match_bonus) 1)"

definition fuzzy_word_match :: "runtime \<Rightarrow> pystr \<Rightarrow> pystr \<Rightarrow> rat \<Rightarrow> bool" where
  "fuzzy_word_match R word1 word2 threshold =
     (if length word1 < 4 \<or> length word2 < 4 then word1 = word2
      else similarity R word1 word2 \<ge> threshold)"

section \<open>Match strategy cascade\<close>

datatype match_type = exact | word_overlap | substring | reverse | fuzzy_words | high_similarity

text \<open>
  The detail strings and the progress lines the matcher prints are kept as values: what is
  formatted into the text, not the text.
\<close>

datatype details =
    NoDetails
  | PerfectNormalizedMatch
  | CommonWords "pystr set"
  | OverlapRatio rat
  | WordsMatched nat
  | StringSimilarity rat

datatype report =
    ExactMatchLine pystr pystr
  | HighWordOverlapLine pystr rat pystr
  | SubstringMatchLine pystr rat pystr
  | ReverseMatchLine pystr rat pystr
  | FuzzyWordMatchLine pystr rat nat nat pystr
  | HighSimilarityLine pystr rat pystr
  | BestMatchLine pystr match_type rat pystr
  | NoMatchFoundLine rat

record pdf_file =
  parent :: "pystr list"
  stem :: pystr
  suffix :: pystr

record match =
  m_pdf_file :: pdf_file
  m_doc_number :: pystr
  m_matched_name :: pystr
  m_match_type :: match_type
  m_details :: details

text \<open>
  \<open>best_match\<close>, \<open>best_doc_number\<close>, \<open>best_match_type\<close> and \<open>best_match_details\<close> are
  always assigned together; the model keeps them in one optional record, \<open>None\<close> before the
  first assignment.
\<close>

record candidate =
  best_match :: pystr
  best_doc_number :: pystr
  best_match_type :: match_type
  best_match_details :: details

record search =
  matched :: bool
  best :: "candidate option"
  best_score :: rat
  matches :: "match list"
  unmatched_pdfs :: "pdf_file list"
  printed :: "report list"

definition say :: "report \<Rightarrow> search \<Rightarrow> search" where
  "say line st = st\<lparr>printed := printed st @ [line]\<rparr>"

text \<open>The update every strategy ends with: \<open>if score > best_score: best_... = ...\<close>.\<close>

definition keep_if_better :: "rat \<Rightarrow> candidate \<Rightarrow> search \<Rightarrow> search" where
  "keep_if_better score c st =
     (if score > best_score st then st\<lparr>best := Some c, best_score := score\<rparr> else st)"

text \<open>\<open>sub in s\<close> on strings: \<open>sub\<close> occurs in \<open>s\<close> as a contiguous block.\<close>

fun contains :: "pystr \<Rightarrow> pystr \<Rightarrow> bool" where
  "contains [] sub = (sub = [])"
| "contains (c # cs) sub = (take (length sub) (c # cs) = sub \<or> contains cs sub)"

text \<open>The inner loop of strategy 4 stops at the first reference word that matches.\<close>

fun any_doc_word_matches :: "runtime \<Rightarrow> pystr \<Rightarrow> pystr list \<Rightarrow> bool" where
  "any_doc_word_matches R pdf_word [] = False"
| "any_doc_word_matches R pdf_word (doc_word # doc_words) =
     (if fuzzy_word_match R pdf_word doc_word (17 / 20) then True
      else any_doc_word_matches R pdf_word doc_words)"

fun count_fuzzy_matches :: "runtime \<Rightarrow> pystr list \<Rightarrow> pystr list \<Rightarrow> nat \<Rightarrow> nat" where
  "count_fuzzy_matches R [] doc_words fuzzy_matches = fuzzy_matches"
| "count_fuzzy_matches R (pdf_word # pdf_words) doc_words fuzzy_matches =
     count_fuzzy_matches R pdf_words doc_words
       (if any_doc_word_matches R pdf_word doc_words then fuzzy_matches + 1 else fuzzy_matches)"

text \<open>
  The conditions of the \<open>if\<close>/\<open>elif\<close>/\<open>else\<close> chain of the loop body after the exact test, without
  the bodies: the arm a (file, reference) pair is routed to.
\<close>

datatype arm = word_overlap_arm | substring_arm | fuzzy_words_arm | high_similarity_arm

definition route :: "pystr list \<Rightarrow> pystr list \<Rightarrow> pystr \<Rightarrow> arm" where
  "route pdf_words doc_words clean_doc_name =
     (let word_overlap_score = calculate_word_overlap_score pdf_words doc_words in
      if word_overlap_score > 7 / 10 \<and> length pdf_words \<ge> 2 \<and> length doc_words \<ge> 2 then
        word_overlap_arm
      else if length clean_doc_name > 8 then substring_arm
      else if length pdf_words \<ge> 2 \<and> length doc_words \<ge> 2 then fuzzy_words_arm
      else high_similarity_arm)"

text \<open>
  Strategies 2 to 5 for one reference entry: the chain with its bodies, as the loop has it.
\<close>

definition try_strategies ::
  "runtime \<Rightarrow> pystr \<Rightarrow> pystr list \<Rightarrow> pystr \<Rightarrow> pystr \<Rightarrow> pystr \<Rightarrow> pystr list \<Rightarrow> search \<Rightarrow> search"
where
  "try_strategies R clean_pdf_name pdf_words doc_name doc_number clean_doc_name doc_words st =
     (let word_overlap_score = calculate_word_overlap_score pdf_words doc_words in
      if word_overlap_score > 7 / 10 \<and> length pdf_words \<ge> 2 \<and> length doc_words \<ge> 2 then
        let common_words = set pdf_words \<inter> set doc_words;
            details = CommonWords common_words
        in keep_if_better word_overlap_score
             \<lparr>best_match = doc_name, best_doc_number = doc_number,
              best_match_type = word_overlap, best_match_details = details\<rparr>
             (say (HighWordOverlapLine doc_name word_overlap_score doc_number) st)
      else if length clean_doc_name > 8 then
        (if contains clean_pdf_name clean_doc_name then
           let overlap_ratio =
                 of_nat (length clean_doc_name)
                   / of_nat (max (length clean_pdf_name) (length clean_doc_name))
           in if overlap_ratio > 6 / 10 then
                let score = overlap_ratio * (8 / 10)
                in keep_if_better score
                     \<lparr>best_match = doc_name, best_doc_number = doc_number,
                      best_match_type = substring, best_match_details = OverlapRatio overlap_ratio\<rparr>
                     (say (SubstringMatchLine doc_name score doc_number) st)
              else st
         else if contains clean_doc_name clean_pdf_name \<and> length clean_pdf_name > 8 then
           let overlap_ratio =
                 of_nat (length clean_pdf_name)
                   / of_nat (max (length clean_pdf_name) (length clean_doc_name))
           in if overlap_ratio > 6 / 10 then
                let score = overlap_ratio * (75 / 100)
                in keep_if_better score
                     \<lparr>best_match = doc_name, best_doc_number = doc_number,
                      best_match_type = reverse, best_match_details = OverlapRatio overlap_ratio\<rparr>
                     (say (ReverseMatchLine doc_name score doc_number) st)
              else st
         else st)
      else if length pdf_words \<ge> 2 \<and> length doc_words \<ge> 2 then
        let total_possible = min (length pdf_words) (length doc_words);
            fuzzy_matches = count_fuzzy_matches R pdf_words doc_words 0;
            fuzzy_score = of_nat fuzzy_matches / of_nat (max (length pdf_words) (length doc_words))
        in if fuzzy_score > 6 / 10 \<and> fuzzy_matches \<ge> 2 then
             let score = fuzzy_score * (7 / 10)
             in keep_if_better score
                  \<lparr>best_match = doc_name, best_doc_number = doc_number,
                   best_match_type = fuzzy_words, best_match_details = WordsMatched fuzzy_matches\<rparr>
                  (say (FuzzyWordMatchLine doc_name score fuzzy_matches total_possible doc_number) st)
           else st
      else
        let sim_score = similarity R clean_pdf_name clean_doc_name
        in if sim_score > 85 / 100 \<and> length clean_pdf_name > 6 \<and> length clean_doc_name > 6 then
             let score = sim_score * (6 / 10)
             in keep_if_better score
                  \<lparr>best_match = doc_name, best_doc_number = doc_number,
                   best_match_type = high_similarity, best_match_details = StringSimilarity sim_score\<rparr>
                  (say (HighSimilarityLine doc_name sim_score doc_number) st)
           else st)"

section \<open>Matcher\<close>

text \<open>
  The loop over \<open>name_to_number.items()\<close>, in the insertion order of the dictionary. An exact
  match appends to \<open>matches\<close> and leaves the loop (\<open>break\<close>): the remaining entries are not
  looked at.
\<close>

fun scan_entries ::
  "runtime \<Rightarrow> pdf_file \<Rightarrow> pystr \<Rightarrow> pystr list \<Rightarrow> (pystr \<times> pystr) list \<Rightarrow> search \<Rightarrow> search"
where
  "scan_entries R pdf clean_pdf_name pdf_words [] st = st"
| "scan_entries R pdf clean_pdf_name pdf_words ((doc_name, doc_number) # entries) st =
     (let clean_doc_name = clean_text_for_matching R doc_name;
          doc_words = extract_meaningful_words R doc_name 3
      in if clean_pdf_name = clean_doc_name then
           (say (ExactMatchLine doc_name doc_number) st)
             \<lparr>matches := matches st @
                [\<lparr>m_pdf_file = pdf, m_doc_number = doc_number, m_matched_name = doc_name,
                  m_match_type = exact, m_details = PerfectNormalizedMatch\<rparr>],
              matched := True\<rparr>
         else scan_entries R pdf clean_pdf_name pdf_words entries
                (try_strategies R clean_pdf_name pdf_words doc_name doc_number
                   clean_doc_name doc_words st))"

text \<open>The body of the loop over the PDF files. A Python string is true when it is not empty.\<close>

definition analyze_pdf :: "runtime \<Rightarrow> (pystr \<times> pystr) list \<Rightarrow> pdf_file \<Rightarrow> search \<Rightarrow> search" where
  "analyze_pdf R name_to_number pdf st =
     (let pdf_name = stem pdf;
          st = st\<lparr>matched := False, best := None, best_score := 0\<rparr>;
          pdf_words = extract_meaningful_words R pdf_name 3;
          clean_pdf_name = clean_text_for_matching R pdf_name;
          st = scan_entries R pdf clean_pdf_name pdf_words name_to_number st;
          st = (case best st of
                  Some c \<Rightarrow>
                    if \<not> matched st \<and> best_match c \<noteq> [] \<and> best_score st > 5 / 10 then
                      (say (BestMatchLine (best_match c) (best_match_type c) (best_score st)
                              (best_doc_number c)) st)
                        \<lparr>matches := matches st @
                           [\<lparr>m_pdf_file = pdf, m_doc_number = best_doc_number c,
                             m_matched_name = best_match c, m_match_type = best_match_type c,
                             m_details = best_match_details c\<rparr>],
                         matched := True\<rparr>
                    else st
                | None \<Rightarrow> st)
      in if \<not> matched st then
           (say (NoMatchFoundLine (best_score st)) st)\<lparr>unmatched_pdfs := unmatched_pdfs st @ [pdf]\<rparr>
         else st)"

definition initial_search :: search where
  "initial_search =
     \<lparr>matched = False, best = None, best_score = 0, matches = [], unmatched_pdfs = [],
      printed = []\<rparr>"

definition match_pdfs :: "runtime \<Rightarrow> (pystr \<times> pystr) list \<Rightarrow> pdf_file list \<Rightarrow> search" where
  "match_pdfs R name_to_number pdf_files =
     fold (analyze_pdf R name_to_number) pdf_files initial_search"

section \<open>Files, the ledger and the operating system\<close>

text \<open>
  A path is taken relative to the PDF folder: the directories below the folder and the file
  name. The folder holds files with some content; two paths are the same file exactly when they
  are equal. Directories are not modelled as objects of their own.
\<close>

datatype path = Path (folders: "pystr list") (filename: pystr)
type_synonym 'c files = "path \<Rightarrow> 'c option"

definition path_exists :: "'c files \<Rightarrow> path \<Rightarrow> bool" where
  "path_exists fs p = (fs p \<noteq> None)"

text \<open>
  \<open>rename_backup.json\<close> is absent, or cannot be used (it does not parse, or is not an
  object), or holds a JSON object, given by its key/value pairs in the order of the text.
\<close>

datatype backup_file = NoBackup | Unreadable | Backup "(path \<times> path) list"

record 'c disk =
  files :: "'c files"
  backup :: backup_file

text \<open>
  What the operating system refuses is not decided by the program: which renames raise
  (permission, lock), whether a directory can be made, whether the ledger can be written or
  removed. These are inputs of each pass.
\<close>

record env =
  rename_raises :: "path \<Rightarrow> path \<Rightarrow> bool"
  mkdir_raises :: "pystr list \<Rightarrow> bool"
  write_raises :: bool
  unlink_raises :: bool

datatype os_error = FileNotFoundError | OSError

text \<open>
  \<open>Path.rename\<close>: raises when the system refuses or the source is missing; otherwise the
  content moves to the target, replacing whatever was there, as POSIX does.
\<close>

definition rename_file :: "env \<Rightarrow> 'c files \<Rightarrow> path \<Rightarrow> path \<Rightarrow> os_error + 'c files" where
  "rename_file E fs src dst =
     (if rename_raises E src dst then Inl OSError
      else case fs src of
             None \<Rightarrow> Inl FileNotFoundError
           | Some c \<Rightarrow> Inr ((fs(src := None))(dst \<mapsto> c)))"

text \<open>
  A Python \<open>dict\<close> keeps its keys in insertion order: \<open>d[k] = v\<close> replaces the value of a key
  that is present, in place, and appends a new key at the end.
\<close>

fun dict_set :: "('k \<times> 'v) list \<Rightarrow> 'k \<Rightarrow> 'v \<Rightarrow> ('k \<times> 'v) list" where
  "dict_set [] k v = [(k, v)]"
| "dict_set ((k', v') # d) k v = (if k' = k then (k, v) # d else (k', v') # dict_set d k v)"

definition dict_update :: "('k \<times> 'v) list \<Rightarrow> ('k \<times> 'v) list \<Rightarrow> ('k \<times> 'v) list" where
  "dict_update d other = fold (\<lambda>(k, v) d. dict_set d k v) other d"

text \<open>\<open>json.load\<close> of an object: a key that is repeated in the text keeps its last value.\<close>

definition json_load :: "(path \<times> path) list \<Rightarrow> (path \<times> path) list" where
  "json_load pairs = dict_update [] pairs"

section \<open>Rename executor\<close>

text \<open>
  The new name is the document number, the stem and \<open>.pdf\<close>, in the directory of the file.
  The document number is taken to contain no path separator: with one, \<open>pathlib\<close> would make
  the target a path below or outside that directory, which this model of paths does not
  describe.
\<close>

definition relative_original_path :: "pdf_file \<Rightarrow> path" where
  "relative_original_path pdf = Path (parent pdf) (stem pdf @ suffix pdf)"

definition new_filename :: "match \<Rightarrow> pystr" where
  "new_filename m = m_doc_number m @ stem (m_pdf_file m) @ str ''.pdf''"

definition relative_new_path :: "match \<Rightarrow> path" where
  "relative_new_path m = Path (parent (m_pdf_file m)) (new_filename m)"

record 'c renaming =
  r_files :: "'c files"
  rename_history :: "(path \<times> path) list"
  renamed_count :: nat

text \<open>
  The body of the loop over \<open>matches\<close>. The history entry is written inside the \<open>try\<close>, before
  the rename is attempted.
\<close>

definition rename_one :: "env \<Rightarrow> match \<Rightarrow> 'c renaming \<Rightarrow> 'c renaming" where
  "rename_one E m st =
     (if path_exists (r_files st) (relative_new_path m) then st
      else
        let st = st\<lparr>rename_history :=
                     dict_set (rename_history st) (relative_new_path m) (relative_original_path (m_pdf_file m))\<rparr>
        in case rename_file E (r_files st) (relative_original_path (m_pdf_file m)) (relative_new_path m) of
             Inr fs \<Rightarrow> st\<lparr>r_files := fs, renamed_count := renamed_count st + 1\<rparr>
           | Inl e \<Rightarrow> st)"

fun rename_matches :: "env \<Rightarrow> match list \<Rightarrow> 'c renaming \<Rightarrow> 'c renaming" where
  "rename_matches E [] st = st"
| "rename_matches E (m # ms) st = rename_matches E ms (rename_one E m st)"

text \<open>
  Saving the history: the existing ledger is loaded and updated with the new entries. A ledger
  that cannot be read, or a write that fails, leaves the file as it was and the renames in place.
\<close>

definition save_history :: "env \<Rightarrow> (path \<times> path) list \<Rightarrow> backup_file \<Rightarrow> backup_file" where
  "save_history E history b =
     (if history = [] then b
      else case b of
             Unreadable \<Rightarrow> b
           | NoBackup \<Rightarrow> if write_raises E then b else Backup (dict_update [] history)
           | Backup pairs \<Rightarrow>
               if write_raises E then b else Backup (dict_update (json_load pairs) history))"

text \<open>The part of \<open>rename_pdfs_with_document_numbers\<close> after the confirmation.\<close>

definition perform_renaming :: "env \<Rightarrow> match list \<Rightarrow> 'c disk \<Rightarrow> 'c disk \<times> nat" where
  "perform_renaming E ms w =
     (let st = rename_matches E ms \<lparr>r_files = files w, rename_history = [], renamed_count = 0\<rparr>
      in (\<lparr>files = r_files st, backup = save_history E (rename_history st) (backup w)\<rparr>,
          renamed_count st))"

text \<open>
  The whole operation, from the reference table and the list of PDF files on: \<open>proceed\<close> is the
  answer to the confirmation prompt.
\<close>

definition rename_pdfs_with_document_numbers ::
  "runtime \<Rightarrow> env \<Rightarrow> (pystr \<times> pystr) list \<Rightarrow> pdf_file list \<Rightarrow> bool \<Rightarrow> 'c disk \<Rightarrow> 'c disk"
where
  "rename_pdfs_with_document_numbers R E name_to_number pdf_files proceed w =
     (if name_to_number = [] then w
      else if pdf_files = [] then w
      else
        let st = match_pdfs R name_to_number pdf_files
        in if matches st = [] then w
           else if \<not> proceed then w
           else fst (perform_renaming E (matches st) w))"

section \<open>Undo executor\<close>

text \<open>
  The loop over the revertible entries. \<open>mkdir\<close> stands outside the \<open>try\<close>: when it raises, the
  exception leaves the loop (\<open>Inl\<close>, with the files as they are then) and the ledger is not
  touched.
\<close>

fun revert_files ::
  "env \<Rightarrow> (path \<times> path) list \<Rightarrow> 'c files \<Rightarrow> path list \<Rightarrow> 'c files + 'c files \<times> path list"
where
  "revert_files E [] fs reverted_items = Inr (fs, reverted_items)"
| "revert_files E ((current_path, original_path) # rest) fs reverted_items =
     (if mkdir_raises E (folders original_path) then Inl fs
      else if path_exists fs original_path \<and> original_path \<noteq> current_path then
        revert_files E rest fs reverted_items
      else case rename_file E fs current_path original_path of
             Inr fs' \<Rightarrow> revert_files E rest fs' (reverted_items @ [current_path])
           | Inl e \<Rightarrow> revert_files E rest fs reverted_items)"

text \<open>
  After the loop: the reverted keys are removed from the ledger, and a ledger left empty is
  deleted. A write or removal that fails leaves the file as it was.
\<close>

definition update_backup ::
  "env \<Rightarrow> (path \<times> path) list \<Rightarrow> path list \<Rightarrow> backup_file \<Rightarrow> backup_file"
where
  "update_backup E backup_data reverted_items b =
     (if reverted_items \<noteq> [] then
        let updated_backup = filter (\<lambda>(k, v). k \<notin> set reverted_items) backup_data
        in if updated_backup \<noteq> [] then (if write_raises E then b else Backup updated_backup)
           else (if unlink_raises E then b else NoBackup)
      else b)"

definition undo_renames :: "env \<Rightarrow> bool \<Rightarrow> 'c disk \<Rightarrow> 'c disk" where
  "undo_renames E proceed w =
     (case backup w of
        NoBackup \<Rightarrow> w
      | Unreadable \<Rightarrow> w
      | Backup pairs \<Rightarrow>
          let backup_data = json_load pairs in
          if backup_data = [] then w
          else
            let revertible_files = filter (\<lambda>(cur, orig). path_exists (files w) cur) backup_data
            in if revertible_files = [] then w
               else if \<not> proceed then w
               else (case revert_files E revertible_files (files w) [] of
                       Inl fs \<Rightarrow> \<lparr>files = fs, backup = backup w\<rparr>
                     | Inr (fs, reverted_items) \<Rightarrow>
                         \<lparr>files = fs,
                          backup = update_backup E backup_data reverted_items (backup w)\<rparr>))"

section \<open>Notions used in the statements\<close>

text \<open>The lines a step of the matcher has added to the output.\<close>

definition lines_added :: "search \<Rightarrow> search \<Rightarrow> report list" where
  "lines_added st st' = drop (length (printed st)) (printed st')"

text \<open>
  The matched count as the specification words it: the number of distinct file tokens that
  fuzzy-match some reference token. It is compared with \<open>count_fuzzy_matches\<close> below.
\<close>

definition spec_distinct_matched_count :: "runtime \<Rightarrow> pystr list \<Rightarrow> pystr list \<Rightarrow> nat" where
  "spec_distinct_matched_count R pdf_words doc_words =
     card (set (filter (\<lambda>pdf_word. any_doc_word_matches R pdf_word doc_words) pdf_words))"








text \<open>The files a run of the undo loop leaves, whether it ended or was left by an exception.\<close>

definition final_files :: "'c files + 'c files \<times> path list \<Rightarrow> 'c files" where
  "final_files r = (case r of Inl fs \<Rightarrow> fs | Inr (fs, reverted_items) \<Rightarrow> fs)"

definition sources :: "match list \<Rightarrow> path list" where
  "sources ms = map (\<lambda>m. relative_original_path (m_pdf_file m)) ms"

definition ledger_pairs :: "backup_file \<Rightarrow> (path \<times> path) list" where
  "ledger_pairs b = (case b of Backup pairs \<Rightarrow> pairs | _ \<Rightarrow> [])"

definition ledger_keys :: "backup_file \<Rightarrow> path set" where
  "ledger_keys b = fst ` set (ledger_pairs b)"

definition refuses_nothing :: "env \<Rightarrow> bool" where
  "refuses_nothing E =
     ((\<forall>src dst. \<not> rename_raises E src dst) \<and> (\<forall>d. \<not> mkdir_raises E d)
      \<and> \<not> write_raises E \<and> \<not> unlink_raises E)"

section \<open>Concrete inputs for the examples\<close>

text \<open>
  A runtime for the examples. Beyond ASCII it knows three letters. U+0130 (LATIN CAPITAL
  LETTER I WITH DOT ABOVE, 304) is alphanumeric and \<open>str.lower\<close> maps it to the two code
  points U+0069 U+0307 (105, 775); U+0307 is a combining mark, neither alphanumeric nor
  whitespace. U+00C4 and U+00E4 (196, 228, A with diaeresis) are alphanumeric, and the capital
  lowercases to the small letter. Its \<open>ratio\<close> is twice the length of the common prefix over
  the total length, which is what \<open>difflib\<close> yields when one string is a prefix of the other.
\<close>

fun common_prefix :: "pystr \<Rightarrow> pystr \<Rightarrow> nat" where
  "common_prefix (a # as) (b # bs) = (if a = b then Suc (common_prefix as bs) else 0)"
| "common_prefix as bs = 0"

definition example_ratio :: "pystr \<Rightarrow> pystr \<Rightarrow> rat" where
  "example_ratio a b =
     (if a = [] \<and> b = [] then 1
      else of_nat (2 * common_prefix a b) / of_nat (length a + length b))"

definition example_runtime :: runtime where
  "example_runtime =
     \<lparr>uni_isspace = (\<lambda>c. False), uni_isalnum = (\<lambda>c. c = 304 \<or> c = 196 \<or> c = 228),
      uni_isdigit = (\<lambda>c. False),
      uni_lower = (\<lambda>s i. if s ! i = 304 then [105, 775] else if s ! i = 196 then [228]
                           else [s ! i]),
      ratio = example_ratio\<rparr>"

definition pdf_named :: "string \<Rightarrow> pdf_file" where
  "pdf_named s = \<lparr>parent = [], stem = str s, suffix = str ''.pdf''\<rparr>"

definition in_root :: "string \<Rightarrow> path" where
  "in_root s = Path [] (str s)"

text \<open>A system that refuses nothing, and one that refuses every rename.\<close>

definition willing :: env where
  "willing =
     \<lparr>rename_raises = (\<lambda>src dst. False), mkdir_raises = (\<lambda>d. False), write_raises = False,
      unlink_raises = False\<rparr>"

definition locked :: env where
  "locked =
     \<lparr>rename_raises = (\<lambda>src dst. True), mkdir_raises = (\<lambda>d. False), write_raises = False,
      unlink_raises = False\<rparr>"

definition exact_match_of :: "string \<Rightarrow> string \<Rightarrow> match" where
  "exact_match_of s number =
     \<lparr>m_pdf_file = pdf_named s, m_doc_number = str number, m_matched_name = str s,
      m_match_type = exact, m_details = PerfectNormalizedMatch\<rparr>"

definition disk_with :: "(path \<times> nat) list \<Rightarrow> backup_file \<Rightarrow> nat disk" where
  "disk_with fs b = \<lparr>files = map_of fs, backup = b\<rparr>"

text \<open>
  A folder with a file already at the target \<open>5x.pdf\<close>, and a ledger from an earlier session:
  one entry whose file is gone, one whose original path \<open>x.pdf\<close> is occupied again.
\<close>

definition busy_disk :: "nat disk" where
  "busy_disk =
     disk_with
       [(in_root ''a.pdf'', 1), (in_root ''b.pdf'', 2), (in_root ''x.pdf'', 3),
        (in_root ''5x.pdf'', 4)]
       (Backup [(in_root ''9z.pdf'', in_root ''z.pdf''), (in_root ''5x.pdf'', in_root ''x.pdf'')])"

text \<open>
  Two files, \<open>0plan.pdf\<close> with document number 1 and \<open>plan.pdf\<close> with document number 0, after
  a confirmed rename in which the system refused nothing.
\<close>

definition chain_renamed :: "nat disk" where
  "chain_renamed =
     rename_pdfs_with_document_numbers example_runtime willing
       [(str ''0plan'', str ''1''), (str ''plan'', str ''0'')]
       [pdf_named ''0plan'', pdf_named ''plan''] True
       (disk_with [(in_root ''0plan.pdf'', 1), (in_root ''plan.pdf'', 2)] NoBackup)"

section \<open>Properties of the normalizer\<close>
















subsection \<open>Lowercasing a settled string\<close>









subsection \<open>A settled string that lowercasing leaves alone is a fixed point\<close>






subsection \<open>ASCII strings\<close>











text \<open>
  C2, as stated, fails: \<open>new\<close> is in the stop-word set of the implementation, so it is not a
  token of \<open>the_new_report.pdf\<close>.
\<close>

theorem tokens_of_the_new_report_counterexample:
  "extract_meaningful_words example_runtime (str ''the_new_report.pdf'') 3
     \<noteq> [str ''new'', str ''report'']"
  by code_simp

text \<open>
  C2, amended: with \<open>min_length = 3\<close> and the stop-word set of the implementation, the file
  name \<open>the_new_report.pdf\<close> tokenizes to \<open>report\<close>, \<open>pdf\<close>, and its stem \<open>the_new_report\<close>,
  which is what the matcher tokenizes, to \<open>report\<close>.
\<close>

theorem tokens_of_the_new_report:
  "extract_meaningful_words R (str ''the_new_report.pdf'') 3 = [str ''report'', str ''pdf'']
   \<and> extract_meaningful_words R (str ''the_new_report'') 3 = [str ''report'']"
  by code_simp

theorem tokens_of_the_new_report_witness:
  "extract_meaningful_words example_runtime (str ''the_new_report.pdf'') 3
     = [str ''report'', str ''pdf'']
   \<and> extract_meaningful_words example_runtime (str ''the_new_report'') 3 = [str ''report'']"
  using tokens_of_the_new_report [of example_runtime] by simp

section \<open>Properties of the similarity primitives and of the cascade\<close>

text \<open>
  C8: the word-overlap score is 0 when either token set is empty; otherwise it is the Jaccard
  index of the two sets plus the bonus \<open>min(0.1 * |intersection|, 0.3)\<close>, capped at 1; it
  always lies between 0 and 1.
\<close>

theorem word_overlap_score_formula:
  "(set A = {} \<or> set B = {} \<longrightarrow> calculate_word_overlap_score A B = 0)
   \<and> (set A \<noteq> {} \<and> set B \<noteq> {} \<longrightarrow>
        calculate_word_overlap_score A B =
          min (of_nat (card (set A \<inter> set B)) / of_nat (card (set A \<union> set B))
               + min (1 / 10 * of_nat (card (set A \<inter> set B))) (3 / 10)) 1)
   \<and> 0 \<le> calculate_word_overlap_score A B \<and> calculate_word_overlap_score A B \<le> 1"
  by (simp add: calculate_word_overlap_score_def Let_def mult.commute)

theorem word_overlap_score_formula_witness:
  "set ([] :: pystr list) = {}
   \<and> calculate_word_overlap_score [] [str ''alpha''] = 0
   \<and> set [str ''alpha'', str ''beta'', str ''gamma''] \<noteq> {}
   \<and> set [str ''alpha'', str ''beta'', str ''delta''] \<noteq> {}
   \<and> calculate_word_overlap_score [str ''alpha'', str ''beta'', str ''gamma'']
         [str ''alpha'', str ''beta'', str ''delta'']
       = min (of_nat (card (set [str ''alpha'', str ''beta'', str ''gamma'']
                            \<inter> set [str ''alpha'', str ''beta'', str ''delta'']))
              / of_nat (card (set [str ''alpha'', str ''beta'', str ''gamma'']
                              \<union> set [str ''alpha'', str ''beta'', str ''delta'']))
              + min (1 / 10 * of_nat (card (set [str ''alpha'', str ''beta'', str ''gamma'']
                                            \<inter> set [str ''alpha'', str ''beta'', str ''delta''])))
                    (3 / 10)) 1
   \<and> 0 \<le> calculate_word_overlap_score [str ''alpha'', str ''beta'', str ''gamma'']
            [str ''alpha'', str ''beta'', str ''delta'']
   \<and> calculate_word_overlap_score [str ''alpha'', str ''beta'', str ''gamma'']
        [str ''alpha'', str ''beta'', str ''delta''] \<le> 1"
  using word_overlap_score_formula [of "[]" "[str ''alpha'']"]
    word_overlap_score_formula [of "[str ''alpha'', str ''beta'', str ''gamma'']"
      "[str ''alpha'', str ''beta'', str ''delta'']"]
  by simp

lemma printed_keep_if_better: "printed (keep_if_better s c st) = printed st"
  by (simp add: keep_if_better_def)

lemma printed_say: "printed (say l st) = printed st @ [l]"
  by (simp add: say_def)

lemma lines_added_same: "lines_added st st = []"
  by (simp add: lines_added_def)

lemma lines_added_keep_say: "lines_added st (keep_if_better s c (say l st)) = [l]"
  by (simp add: lines_added_def printed_keep_if_better printed_say)

lemma best_keep_say:
  "best (keep_if_better s c (say l st)) = (if s > best_score st then Some c else best st)"
  by (simp add: keep_if_better_def say_def)

lemmas lines_simps = lines_added_same lines_added_keep_say

text \<open>What recording a candidate does to the state: the line, and the best-so-far comparison.\<close>

lemma record_effects:
  "printed (keep_if_better s c (say l st)) = printed st @ [l]
   \<and> best (keep_if_better s c (say l st)) = (if s > best_score st then Some c else best st)
   \<and> best_score (keep_if_better s c (say l st)) = (if s > best_score st then s else best_score st)
   \<and> matched (keep_if_better s c (say l st)) = matched st
   \<and> matches (keep_if_better s c (say l st)) = matches st
   \<and> unmatched_pdfs (keep_if_better s c (say l st)) = unmatched_pdfs st"
  by (simp add: keep_if_better_def say_def)

lemma word_overlap_branch:
  assumes "2 \<le> length pdf_words" and "2 \<le> length doc_words"
  shows "(calculate_word_overlap_score pdf_words doc_words = 7 / 10 \<longrightarrow>
            (\<forall>l \<in> set (lines_added st
                 (try_strategies R clean_pdf_name pdf_words doc_name doc_number clean_doc_name
                    doc_words st)).
               \<forall>n s d. l \<noteq> HighWordOverlapLine n s d)
            \<and> (best (try_strategies R clean_pdf_name pdf_words doc_name doc_number clean_doc_name
                       doc_words st) = best st
               \<or> (\<exists>c. best (try_strategies R clean_pdf_name pdf_words doc_name doc_number
                              clean_doc_name doc_words st) = Some c
                      \<and> best_match_type c \<noteq> word_overlap)))
       \<and> (calculate_word_overlap_score pdf_words doc_words > 7 / 10 \<longrightarrow>
            try_strategies R clean_pdf_name pdf_words doc_name doc_number clean_doc_name doc_words st =
              keep_if_better (calculate_word_overlap_score pdf_words doc_words)
                \<lparr>best_match = doc_name, best_doc_number = doc_number, best_match_type = word_overlap,
                 best_match_details = CommonWords (set pdf_words \<inter> set doc_words)\<rparr>
                (say (HighWordOverlapLine doc_name
                        (calculate_word_overlap_score pdf_words doc_words) doc_number) st))"
  using assms
  by (auto simp add: try_strategies_def Let_def lines_simps best_keep_say)

text \<open>
  C7: with at least two tokens on each side, a word-overlap score of exactly 0.7 records no
  WordOverlap candidate: no high-word-overlap line is printed and the best candidate does not
  become a \<open>word_overlap\<close> one. A score strictly above 0.7 records the candidate: the
  high-word-overlap line is printed with that score, and the candidate becomes the best one,
  with that score as the best score, exactly when the score exceeds the best score so far;
  nothing else of the state changes.
\<close>

theorem word_overlap_threshold:
  assumes "2 \<le> length pdf_words" and "2 \<le> length doc_words"
  shows "(calculate_word_overlap_score pdf_words doc_words = 7 / 10 \<longrightarrow>
            (\<forall>l \<in> set (lines_added st
                 (try_strategies R clean_pdf_name pdf_words doc_name doc_number clean_doc_name
                    doc_words st)).
               \<forall>n s d. l \<noteq> HighWordOverlapLine n s d)
            \<and> (best (try_strategies R clean_pdf_name pdf_words doc_name doc_number clean_doc_name
                       doc_words st) = best st
               \<or> (\<exists>c. best (try_strategies R clean_pdf_name pdf_words doc_name doc_number
                              clean_doc_name doc_words st) = Some c
                      \<and> best_match_type c \<noteq> word_overlap)))
       \<and> (calculate_word_overlap_score pdf_words doc_words > 7 / 10 \<longrightarrow>
            try_strategies R clean_pdf_name pdf_words doc_name doc_number clean_doc_name doc_words st =
              keep_if_better (calculate_word_overlap_score pdf_words doc_words)
                \<lparr>best_match = doc_name, best_doc_number = doc_number, best_match_type = word_overlap,
                 best_match_details = CommonWords (set pdf_words \<inter> set doc_words)\<rparr>
                (say (HighWordOverlapLine doc_name
                        (calculate_word_overlap_score pdf_words doc_words) doc_number) st)
            \<and> printed (try_strategies R clean_pdf_name pdf_words doc_name doc_number
                          clean_doc_name doc_words st)
                = printed st @ [HighWordOverlapLine doc_name
                                  (calculate_word_overlap_score pdf_words doc_words) doc_number]
            \<and> best (try_strategies R clean_pdf_name pdf_words doc_name doc_number clean_doc_name
                       doc_words st)
                = (if calculate_word_overlap_score pdf_words doc_words > best_score st
                   then Some \<lparr>best_match = doc_name, best_doc_number = doc_number,
                               best_match_type = word_overlap,
                               best_match_details = CommonWords (set pdf_words \<inter> set doc_words)\<rparr>
                   else best st)
            \<and> best_score (try_strategies R clean_pdf_name pdf_words doc_name doc_number
                             clean_doc_name doc_words st)
                = (if calculate_word_overlap_score pdf_words doc_words > best_score st
                   then calculate_word_overlap_score pdf_words doc_words else best_score st)
            \<and> matched (try_strategies R clean_pdf_name pdf_words doc_name doc_number
                          clean_doc_name doc_words st) = matched st
            \<and> matches (try_strategies R clean_pdf_name pdf_words doc_name doc_number
                          clean_doc_name doc_words st) = matches st
            \<and> unmatched_pdfs (try_strategies R clean_pdf_name pdf_words doc_name doc_number
                                 clean_doc_name doc_words st) = unmatched_pdfs st)"
proof -
  note b = word_overlap_branch [OF assms, of st R clean_pdf_name doc_name doc_number clean_doc_name]
  show ?thesis
  proof (intro conjI impI)
    assume "calculate_word_overlap_score pdf_words doc_words = 7 / 10"
    with b show "\<forall>l \<in> set (lines_added st
                 (try_strategies R clean_pdf_name pdf_words doc_name doc_number clean_doc_name
                    doc_words st)).
               \<forall>n s d. l \<noteq> HighWordOverlapLine n s d"
      and "best (try_strategies R clean_pdf_name pdf_words doc_name doc_number clean_doc_name
                       doc_words st) = best st
               \<or> (\<exists>c. best (try_strategies R clean_pdf_name pdf_words doc_name doc_number
                              clean_doc_name doc_words st) = Some c
                      \<and> best_match_type c \<noteq> word_overlap)"
      by blast+
  next
    assume "calculate_word_overlap_score pdf_words doc_words > 7 / 10"
    with b have e: "try_strategies R clean_pdf_name pdf_words doc_name doc_number clean_doc_name
        doc_words st =
          keep_if_better (calculate_word_overlap_score pdf_words doc_words)
            \<lparr>best_match = doc_name, best_doc_number = doc_number, best_match_type = word_overlap,
             best_match_details = CommonWords (set pdf_words \<inter> set doc_words)\<rparr>
            (say (HighWordOverlapLine doc_name
                    (calculate_word_overlap_score pdf_words doc_words) doc_number) st)"
      by blast
    show "try_strategies R clean_pdf_name pdf_words doc_name doc_number clean_doc_name
        doc_words st =
          keep_if_better (calculate_word_overlap_score pdf_words doc_words)
            \<lparr>best_match = doc_name, best_doc_number = doc_number, best_match_type = word_overlap,
             best_match_details = CommonWords (set pdf_words \<inter> set doc_words)\<rparr>
            (say (HighWordOverlapLine doc_name
                    (calculate_word_overlap_score pdf_words doc_words) doc_number) st)"
      by (rule e)
    show "printed (try_strategies R clean_pdf_name pdf_words doc_name doc_number
                          clean_doc_name doc_words st)
                = printed st @ [HighWordOverlapLine doc_name
                                  (calculate_word_overlap_score pdf_words doc_words) doc_number]"
      unfolding e by (simp add: record_effects)
    show "best (try_strategies R clean_pdf_name pdf_words doc_name doc_number clean_doc_name
                       doc_words st)
                = (if calculate_word_overlap_score pdf_words doc_words > best_score st
                   then Some \<lparr>best_match = doc_name, best_doc_number = doc_number,
                               best_match_type = word_overlap,
                               best_match_details = CommonWords (set pdf_words \<inter> set doc_words)\<rparr>
                   else best st)"
      unfolding e by (simp add: record_effects)
    show "best_score (try_strategies R clean_pdf_name pdf_words doc_name doc_number
                             clean_doc_name doc_words st)
                = (if calculate_word_overlap_score pdf_words doc_words > best_score st
                   then calculate_word_overlap_score pdf_words doc_words else best_score st)"
      unfolding e by (simp add: record_effects)
    show "matched (try_strategies R clean_pdf_name pdf_words doc_name doc_number
                          clean_doc_name doc_words st) = matched st"
      unfolding e by (simp add: record_effects)
    show "matches (try_strategies R clean_pdf_name pdf_words doc_name doc_number
                          clean_doc_name doc_words st) = matches st"
      unfolding e by (simp add: record_effects)
    show "unmatched_pdfs (try_strategies R clean_pdf_name pdf_words doc_name doc_number
                                 clean_doc_name doc_words st) = unmatched_pdfs st"
      unfolding e by (simp add: record_effects)
  qed
qed


theorem word_overlap_threshold_witness:
  "2 \<le> length [str ''alpha'', str ''beta'', str ''gamma'']
   \<and> 2 \<le> length [str ''alpha'', str ''beta'', str ''delta'']
   \<and> calculate_word_overlap_score [str ''alpha'', str ''beta'', str ''gamma'']
         [str ''alpha'', str ''beta'', str ''delta''] = 7 / 10
   \<and> HighWordOverlapLine (str ''Alpha Beta Delta'') (7 / 10) (str ''100'')
       \<notin> set (lines_added initial_search
          (try_strategies example_runtime (str ''alpha beta gamma'')
             [str ''alpha'', str ''beta'', str ''gamma''] (str ''Alpha Beta Delta'') (str ''100'')
             (str ''alpha beta delta'') [str ''alpha'', str ''beta'', str ''delta'']
             initial_search))
   \<and> 2 \<le> length [str ''alpha'', str ''beta'', str ''gamma'', str ''delta'']
   \<and> calculate_word_overlap_score [str ''alpha'', str ''beta'', str ''gamma'']
         [str ''alpha'', str ''beta'', str ''gamma'', str ''delta''] = 1
   \<and> (1 :: rat) > 7 / 10
   \<and> (1 :: rat) > best_score initial_search
   \<and> printed (try_strategies example_runtime (str ''alpha beta gamma'')
         [str ''alpha'', str ''beta'', str ''gamma''] (str ''Alpha Beta Gamma Delta'') (str ''101'')
         (str ''alpha beta gamma delta'') [str ''alpha'', str ''beta'', str ''gamma'', str ''delta'']
         initial_search)
       = printed initial_search @ [HighWordOverlapLine (str ''Alpha Beta Gamma Delta'') 1 (str ''101'')]
   \<and> best (try_strategies example_runtime (str ''alpha beta gamma'')
         [str ''alpha'', str ''beta'', str ''gamma''] (str ''Alpha Beta Gamma Delta'') (str ''101'')
         (str ''alpha beta gamma delta'') [str ''alpha'', str ''beta'', str ''gamma'', str ''delta'']
         initial_search)
       = Some \<lparr>best_match = str ''Alpha Beta Gamma Delta'', best_doc_number = str ''101'',
               best_match_type = word_overlap,
               best_match_details =
                 CommonWords (set [str ''alpha'', str ''beta'', str ''gamma'']
                              \<inter> set [str ''alpha'', str ''beta'', str ''gamma'', str ''delta''])\<rparr>
   \<and> best_score (try_strategies example_runtime (str ''alpha beta gamma'')
         [str ''alpha'', str ''beta'', str ''gamma''] (str ''Alpha Beta Gamma Delta'') (str ''101'')
         (str ''alpha beta gamma delta'') [str ''alpha'', str ''beta'', str ''gamma'', str ''delta'']
         initial_search) = 1"
proof -
  have l1: "2 \<le> length [str ''alpha'', str ''beta'', str ''gamma'']" by simp
  have l2: "2 \<le> length [str ''alpha'', str ''beta'', str ''delta'']" by simp
  have l3: "2 \<le> length [str ''alpha'', str ''beta'', str ''gamma'', str ''delta'']" by simp
  have s1: "calculate_word_overlap_score [str ''alpha'', str ''beta'', str ''gamma'']
              [str ''alpha'', str ''beta'', str ''delta''] = 7 / 10"
    by code_simp
  have s2: "calculate_word_overlap_score [str ''alpha'', str ''beta'', str ''gamma'']
              [str ''alpha'', str ''beta'', str ''gamma'', str ''delta''] = 1"
    by code_simp
  have g: "(1 :: rat) > 7 / 10" by simp
  have i: "(1 :: rat) > best_score initial_search" by (simp add: initial_search_def)
  from g have gs: "calculate_word_overlap_score [str ''alpha'', str ''beta'', str ''gamma'']
              [str ''alpha'', str ''beta'', str ''gamma'', str ''delta''] > 7 / 10" by (simp only: s2)
  from i have above: "calculate_word_overlap_score [str ''alpha'', str ''beta'', str ''gamma'']
              [str ''alpha'', str ''beta'', str ''gamma'', str ''delta''] > best_score initial_search" by (simp only: s2)
  note a = word_overlap_threshold [OF l1 l2, of initial_search example_runtime
      "str ''alpha beta gamma''" "str ''Alpha Beta Delta''" "str ''100''" "str ''alpha beta delta''"]
  note b = word_overlap_threshold [OF l1 l3, of initial_search example_runtime
      "str ''alpha beta gamma''" "str ''Alpha Beta Gamma Delta''" "str ''101''"
      "str ''alpha beta gamma delta''"]
  from a s1 have a': "HighWordOverlapLine (str ''Alpha Beta Delta'') (7 / 10) (str ''100'')
       \<notin> set (lines_added initial_search
          (try_strategies example_runtime (str ''alpha beta gamma'')
             [str ''alpha'', str ''beta'', str ''gamma''] (str ''Alpha Beta Delta'') (str ''100'')
             (str ''alpha beta delta'') [str ''alpha'', str ''beta'', str ''delta'']
             initial_search))"
    by blast
  from b gs have "printed (try_strategies example_runtime (str ''alpha beta gamma'')
         [str ''alpha'', str ''beta'', str ''gamma''] (str ''Alpha Beta Gamma Delta'') (str ''101'')
         (str ''alpha beta gamma delta'') [str ''alpha'', str ''beta'', str ''gamma'', str ''delta'']
         initial_search)
       = printed initial_search @ [HighWordOverlapLine (str ''Alpha Beta Gamma Delta'')
           (calculate_word_overlap_score [str ''alpha'', str ''beta'', str ''gamma'']
              [str ''alpha'', str ''beta'', str ''gamma'', str ''delta'']) (str ''101'')]"
    by blast
  then have b1: "printed (try_strategies example_runtime (str ''alpha beta gamma'')
         [str ''alpha'', str ''beta'', str ''gamma''] (str ''Alpha Beta Gamma Delta'') (str ''101'')
         (str ''alpha beta gamma delta'') [str ''alpha'', str ''beta'', str ''gamma'', str ''delta'']
         initial_search)
       = printed initial_search @ [HighWordOverlapLine (str ''Alpha Beta Gamma Delta'') 1 (str ''101'')]"
    by (simp only: s2)
  from b gs have "best (try_strategies example_runtime (str ''alpha beta gamma'')
         [str ''alpha'', str ''beta'', str ''gamma''] (str ''Alpha Beta Gamma Delta'') (str ''101'')
         (str ''alpha beta gamma delta'') [str ''alpha'', str ''beta'', str ''gamma'', str ''delta'']
         initial_search)
       = (if calculate_word_overlap_score [str ''alpha'', str ''beta'', str ''gamma'']
              [str ''alpha'', str ''beta'', str ''gamma'', str ''delta''] > best_score initial_search
          then Some \<lparr>best_match = str ''Alpha Beta Gamma Delta'', best_doc_number = str ''101'',
               best_match_type = word_overlap,
               best_match_details =
                 CommonWords (set [str ''alpha'', str ''beta'', str ''gamma'']
                              \<inter> set [str ''alpha'', str ''beta'', str ''gamma'', str ''delta''])\<rparr>
          else best initial_search)"
    by blast
  with above have b2: "best (try_strategies example_runtime (str ''alpha beta gamma'')
         [str ''alpha'', str ''beta'', str ''gamma''] (str ''Alpha Beta Gamma Delta'') (str ''101'')
         (str ''alpha beta gamma delta'') [str ''alpha'', str ''beta'', str ''gamma'', str ''delta'']
         initial_search)
       = Some \<lparr>best_match = str ''Alpha Beta Gamma Delta'', best_doc_number = str ''101'',
               best_match_type = word_overlap,
               best_match_details =
                 CommonWords (set [str ''alpha'', str ''beta'', str ''gamma'']
                              \<inter> set [str ''alpha'', str ''beta'', str ''gamma'', str ''delta''])\<rparr>"
    by (simp only: if_True)
  from b gs have "best_score (try_strategies example_runtime (str ''alpha beta gamma'')
         [str ''alpha'', str ''beta'', str ''gamma''] (str ''Alpha Beta Gamma Delta'') (str ''101'')
         (str ''alpha beta gamma delta'') [str ''alpha'', str ''beta'', str ''gamma'', str ''delta'']
         initial_search)
       = (if calculate_word_overlap_score [str ''alpha'', str ''beta'', str ''gamma'']
              [str ''alpha'', str ''beta'', str ''gamma'', str ''delta''] > best_score initial_search
          then calculate_word_overlap_score [str ''alpha'', str ''beta'', str ''gamma'']
              [str ''alpha'', str ''beta'', str ''gamma'', str ''delta'']
          else best_score initial_search)"
    by blast
  with above have "best_score (try_strategies example_runtime (str ''alpha beta gamma'')
         [str ''alpha'', str ''beta'', str ''gamma''] (str ''Alpha Beta Gamma Delta'') (str ''101'')
         (str ''alpha beta gamma delta'') [str ''alpha'', str ''beta'', str ''gamma'', str ''delta'']
         initial_search) = calculate_word_overlap_score [str ''alpha'', str ''beta'', str ''gamma'']
              [str ''alpha'', str ''beta'', str ''gamma'', str ''delta'']"
    by (simp only: if_True)
  then have b3: "best_score (try_strategies example_runtime (str ''alpha beta gamma'')
         [str ''alpha'', str ''beta'', str ''gamma''] (str ''Alpha Beta Gamma Delta'') (str ''101'')
         (str ''alpha beta gamma delta'') [str ''alpha'', str ''beta'', str ''gamma'', str ''delta'']
         initial_search) = 1"
    by (simp only: s2)
  from l1 l2 l3 s1 s2 g i a' b1 b2 b3 show ?thesis by blast
qed

text \<open>
  The matched count of the FuzzyWords strategy is the number of positions of the file token
  list whose token fuzzy-matches some reference token: a token that occurs twice is counted
  twice.
\<close>

lemma any_doc_word_matches_iff:
  "any_doc_word_matches R w ds = (\<exists>d \<in> set ds. fuzzy_word_match R w d (17 / 20))"
  by (induction ds) auto

lemma count_fuzzy_matches_eq:
  "count_fuzzy_matches R ws ds n =
     n + length (filter (\<lambda>w. \<exists>d \<in> set ds. fuzzy_word_match R w d (17 / 20)) ws)"
  by (induction ws arbitrary: n) (auto simp: any_doc_word_matches_iff)

text \<open>
  C3 holds of the specification and fails on the code. The loop adds one for every element of
  \<open>pdf_words\<close> that matches, and \<open>pdf_words\<close> keeps repeated tokens, where the comment of the
  source (at least 2 words must match) and its report (matched words out of the possible
  ones) speak of words. For the file \<open>abc abc abc.pdf\<close> and the reference name \<open>abc def\<close> one
  distinct token matches; the code counts 3, reports 3 of 2 words, takes the fuzzy score as 1,
  records the candidate with score 0.7 and emits the match.
\<close>

theorem fuzzy_words_counts_repeated_token:
  "extract_meaningful_words example_runtime (stem (pdf_named ''abc abc abc'')) 3
     = [str ''abc'', str ''abc'', str ''abc'']
   \<and> extract_meaningful_words example_runtime (str ''abc def'') 3 = [str ''abc'', str ''def'']
   \<and> count_fuzzy_matches example_runtime [str ''abc'', str ''abc'', str ''abc'']
        [str ''abc'', str ''def''] 0 = 3
   \<and> spec_distinct_matched_count example_runtime [str ''abc'', str ''abc'', str ''abc'']
        [str ''abc'', str ''def''] = 1
   \<and> printed (match_pdfs example_runtime [(str ''abc def'', str ''7'')]
                 [pdf_named ''abc abc abc''])
       = [FuzzyWordMatchLine (str ''abc def'') (7 / 10) 3 2 (str ''7''),
          BestMatchLine (str ''abc def'') fuzzy_words (7 / 10) (str ''7'')]
   \<and> matches (match_pdfs example_runtime [(str ''abc def'', str ''7'')]
                 [pdf_named ''abc abc abc''])
       = [\<lparr>m_pdf_file = pdf_named ''abc abc abc'', m_doc_number = str ''7'',
           m_matched_name = str ''abc def'', m_match_type = fuzzy_words,
           m_details = WordsMatched 3\<rparr>]"
  by code_simp

lemma high_similarity_recorded:
  assumes "HighSimilarityLine n s d \<in> set (lines_added st
             (try_strategies R clean_pdf_name pdf_words doc_name doc_number clean_doc_name
                doc_words st))"
  shows "(length clean_doc_name = 7 \<or> length clean_doc_name = 8)
         \<and> (length pdf_words < 2 \<or> length doc_words < 2)
         \<and> length clean_pdf_name > 6
         \<and> s = similarity R clean_pdf_name clean_doc_name \<and> s > 85 / 100"
  using assms by (auto simp add: try_strategies_def Let_def lines_simps split: if_splits)

lemma high_similarity_route:
  "route pdf_words doc_words clean_doc_name = high_similarity_arm
     \<longleftrightarrow> length clean_doc_name \<le> 8 \<and> (length pdf_words < 2 \<or> length doc_words < 2)"
  by (auto simp: route_def Let_def)

lemma high_similarity_body:
  assumes "route pdf_words doc_words clean_doc_name = high_similarity_arm"
  shows "try_strategies R clean_pdf_name pdf_words doc_name doc_number clean_doc_name doc_words st =
     (if similarity R clean_pdf_name clean_doc_name > 85 / 100 \<and> length clean_pdf_name > 6
         \<and> length clean_doc_name > 6
      then keep_if_better (similarity R clean_pdf_name clean_doc_name * (6 / 10))
             \<lparr>best_match = doc_name, best_doc_number = doc_number,
              best_match_type = high_similarity,
              best_match_details = StringSimilarity (similarity R clean_pdf_name clean_doc_name)\<rparr>
             (say (HighSimilarityLine doc_name (similarity R clean_pdf_name clean_doc_name)
                     doc_number) st)
      else st)"
proof -
  from assms have a: "\<not> length clean_doc_name > 8"
    and b: "length pdf_words < 2 \<or> length doc_words < 2"
    by (auto simp: route_def Let_def split: if_splits)
  from b show ?thesis
  proof
    assume "length pdf_words < 2"
    then have "\<not> 2 \<le> length pdf_words" by simp
    with a show ?thesis by (simp add: try_strategies_def Let_def)
  next
    assume "length doc_words < 2"
    then have "\<not> 2 \<le> length doc_words" by simp
    with a show ?thesis by (simp add: try_strategies_def Let_def)
  qed
qed

text \<open>
  C10, as stated, fails in its last clause: the HighSimilarity branch is reached for shapes
  other than a normalized reference name of 7 or 8 characters. For the file \<open>xyz.pdf\<close> and the
  reference name \<open>abc\<close>, of 3 characters and one token, the pair is no exact match and is
  routed to the HighSimilarity arm, where the similarity is computed.
\<close>

theorem high_similarity_arm_reached_for_short_name:
  "clean_text_for_matching example_runtime (stem (pdf_named ''xyz''))
     \<noteq> clean_text_for_matching example_runtime (str ''abc'')
   \<and> length (clean_text_for_matching example_runtime (str ''abc'')) = 3
   \<and> route (extract_meaningful_words example_runtime (stem (pdf_named ''xyz'')) 3)
        (extract_meaningful_words example_runtime (str ''abc'') 3)
        (clean_text_for_matching example_runtime (str ''abc''))
       = high_similarity_arm"
  by code_simp

text \<open>
  C10, amended. After the exact test has failed, the HighSimilarity strategy records a
  candidate for a (file, reference) pair only if the normalized reference name has exactly 7
  or 8 characters and at least one side has fewer than two meaningful tokens (and then the
  normalized file name has more than 6 characters and the similarity exceeds 0.85). The
  HighSimilarity branch is reached exactly when the normalized reference name has at most 8
  characters and at least one side has fewer than two meaningful tokens, so also for names of
  at most 6 characters; there it leaves the state as it is, and it records (the line, and the
  candidate with score similarity times 0.6, kept if that exceeds the best score so far) only
  when the similarity exceeds 0.85 and both normalized names have more than 6 characters. For
  every other shape the branch is not reached and no HighSimilarity candidate is recorded.
\<close>

theorem high_similarity_shape:
  "(HighSimilarityLine n s d \<in> set (lines_added st
       (try_strategies R clean_pdf_name pdf_words doc_name doc_number clean_doc_name
          doc_words st)) \<longrightarrow>
      (length clean_doc_name = 7 \<or> length clean_doc_name = 8)
      \<and> (length pdf_words < 2 \<or> length doc_words < 2)
      \<and> length clean_pdf_name > 6
      \<and> s = similarity R clean_pdf_name clean_doc_name \<and> s > 85 / 100)
   \<and> (route pdf_words doc_words clean_doc_name = high_similarity_arm
        \<longleftrightarrow> length clean_doc_name \<le> 8 \<and> (length pdf_words < 2 \<or> length doc_words < 2))
   \<and> (route pdf_words doc_words clean_doc_name = high_similarity_arm \<longrightarrow>
        (if similarity R clean_pdf_name clean_doc_name > 85 / 100 \<and> length clean_pdf_name > 6
            \<and> length clean_doc_name > 6
         then printed (try_strategies R clean_pdf_name pdf_words doc_name doc_number
                         clean_doc_name doc_words st)
                = printed st @ [HighSimilarityLine doc_name
                                  (similarity R clean_pdf_name clean_doc_name) doc_number]
              \<and> best (try_strategies R clean_pdf_name pdf_words doc_name doc_number
                        clean_doc_name doc_words st)
                  = (if similarity R clean_pdf_name clean_doc_name * (6 / 10) > best_score st
                     then Some \<lparr>best_match = doc_name, best_doc_number = doc_number,
                                 best_match_type = high_similarity,
                                 best_match_details =
                                   StringSimilarity (similarity R clean_pdf_name clean_doc_name)\<rparr>
                     else best st)
              \<and> best_score (try_strategies R clean_pdf_name pdf_words doc_name doc_number
                              clean_doc_name doc_words st)
                  = (if similarity R clean_pdf_name clean_doc_name * (6 / 10) > best_score st
                     then similarity R clean_pdf_name clean_doc_name * (6 / 10)
                     else best_score st)
         else try_strategies R clean_pdf_name pdf_words doc_name doc_number clean_doc_name
                doc_words st = st))
   \<and> (route pdf_words doc_words clean_doc_name \<noteq> high_similarity_arm \<longrightarrow>
        (\<forall>n s d. HighSimilarityLine n s d \<notin> set (lines_added st
            (try_strategies R clean_pdf_name pdf_words doc_name doc_number clean_doc_name
               doc_words st))))"
proof (intro conjI impI allI)
  assume "HighSimilarityLine n s d \<in> set (lines_added st
       (try_strategies R clean_pdf_name pdf_words doc_name doc_number clean_doc_name
          doc_words st))"
  from high_similarity_recorded [OF this]
  show "length clean_doc_name = 7 \<or> length clean_doc_name = 8"
    and "length pdf_words < 2 \<or> length doc_words < 2"
    and "length clean_pdf_name > 6"
    and "s = similarity R clean_pdf_name clean_doc_name"
    and "s > 85 / 100"
    by simp_all
next
  show "route pdf_words doc_words clean_doc_name = high_similarity_arm
        \<longleftrightarrow> length clean_doc_name \<le> 8 \<and> (length pdf_words < 2 \<or> length doc_words < 2)"
    by (rule high_similarity_route)
next
  assume "route pdf_words doc_words clean_doc_name = high_similarity_arm"
  from high_similarity_body [OF this, of R clean_pdf_name doc_name doc_number st]
  show "if similarity R clean_pdf_name clean_doc_name > 85 / 100 \<and> length clean_pdf_name > 6
            \<and> length clean_doc_name > 6
         then printed (try_strategies R clean_pdf_name pdf_words doc_name doc_number
                         clean_doc_name doc_words st)
                = printed st @ [HighSimilarityLine doc_name
                                  (similarity R clean_pdf_name clean_doc_name) doc_number]
              \<and> best (try_strategies R clean_pdf_name pdf_words doc_name doc_number
                        clean_doc_name doc_words st)
                  = (if similarity R clean_pdf_name clean_doc_name * (6 / 10) > best_score st
                     then Some \<lparr>best_match = doc_name, best_doc_number = doc_number,
                                 best_match_type = high_similarity,
                                 best_match_details =
                                   StringSimilarity (similarity R clean_pdf_name clean_doc_name)\<rparr>
                     else best st)
              \<and> best_score (try_strategies R clean_pdf_name pdf_words doc_name doc_number
                              clean_doc_name doc_words st)
                  = (if similarity R clean_pdf_name clean_doc_name * (6 / 10) > best_score st
                     then similarity R clean_pdf_name clean_doc_name * (6 / 10)
                     else best_score st)
         else try_strategies R clean_pdf_name pdf_words doc_name doc_number clean_doc_name
                doc_words st = st"
    by (simp add: record_effects)
next
  fix n' s' d'
  assume r: "route pdf_words doc_words clean_doc_name \<noteq> high_similarity_arm"
  show "HighSimilarityLine n' s' d' \<notin> set (lines_added st
            (try_strategies R clean_pdf_name pdf_words doc_name doc_number clean_doc_name
               doc_words st))"
  proof
    assume "HighSimilarityLine n' s' d' \<in> set (lines_added st
            (try_strategies R clean_pdf_name pdf_words doc_name doc_number clean_doc_name
               doc_words st))"
    from high_similarity_recorded [OF this] r show False
      by (auto simp: high_similarity_route)
  qed
qed

theorem high_similarity_shape_witness:
  "HighSimilarityLine (str ''abcdefg'') (14 / 15) (str ''100'')
     \<in> set (lines_added initial_search
         (try_strategies example_runtime (str ''abcdefgh'') [str ''abcdefgh''] (str ''abcdefg'')
            (str ''100'') (str ''abcdefg'') [str ''abcdefg''] initial_search))
   \<and> (length (str ''abcdefg'') = 7 \<or> length (str ''abcdefg'') = 8)
   \<and> (length [str ''abcdefgh''] < 2 \<or> length [str ''abcdefg''] < 2)
   \<and> length (str ''abcdefgh'') > 6
   \<and> 14 / 15 = similarity example_runtime (str ''abcdefgh'') (str ''abcdefg'')
   \<and> (14 / 15 :: rat) > 85 / 100
   \<and> length (str ''abc'') \<le> 8 \<and> length [str ''xyz''] < 2
   \<and> route [str ''xyz''] [str ''abc''] (str ''abc'') = high_similarity_arm
   \<and> try_strategies example_runtime (str ''xyz'') [str ''xyz''] (str ''abc'') (str ''7'')
        (str ''abc'') [str ''abc''] initial_search = initial_search
   \<and> route [str ''alpha'', str ''beta''] [str ''alpha'', str ''gamma''] (str ''alpha gamma'')
       \<noteq> high_similarity_arm
   \<and> HighSimilarityLine (str ''Alpha Gamma'') 0 (str ''7'')
       \<notin> set (lines_added initial_search
           (try_strategies example_runtime (str ''alpha beta'') [str ''alpha'', str ''beta'']
              (str ''Alpha Gamma'') (str ''7'') (str ''alpha gamma'')
              [str ''alpha'', str ''gamma''] initial_search))"
proof -
  have h: "HighSimilarityLine (str ''abcdefg'') (14 / 15) (str ''100'')
     \<in> set (lines_added initial_search
         (try_strategies example_runtime (str ''abcdefgh'') [str ''abcdefgh''] (str ''abcdefg'')
            (str ''100'') (str ''abcdefg'') [str ''abcdefg''] initial_search))"
    by code_simp
  have k: "length (str ''abc'') \<le> 8 \<and> length [str ''xyz''] < 2" by code_simp
  have c: "\<not> (similarity example_runtime (str ''xyz'') (str ''abc'') > 85 / 100
              \<and> length (str ''xyz'') > 6 \<and> length (str ''abc'') > 6)"
    by code_simp
  have r: "route [str ''alpha'', str ''beta''] [str ''alpha'', str ''gamma''] (str ''alpha gamma'')
       \<noteq> high_similarity_arm"
    by code_simp
  note a = high_similarity_shape [of "str ''abcdefg''" "14 / 15" "str ''100''" initial_search
      example_runtime "str ''abcdefgh''" "[str ''abcdefgh'']" "str ''abcdefg''" "str ''100''"
      "str ''abcdefg''" "[str ''abcdefg'']"]
  note b = high_similarity_shape [of "str ''abc''" 0 "str ''7''" initial_search
      example_runtime "str ''xyz''" "[str ''xyz'']" "str ''abc''" "str ''7''"
      "str ''abc''" "[str ''abc'']"]
  note e = high_similarity_shape [of "str ''Alpha Gamma''" 0 "str ''7''" initial_search
      example_runtime "str ''alpha beta''" "[str ''alpha'', str ''beta'']" "str ''Alpha Gamma''"
      "str ''7''" "str ''alpha gamma''" "[str ''alpha'', str ''gamma'']"]
  from a h have a': "(length (str ''abcdefg'') = 7 \<or> length (str ''abcdefg'') = 8)
   \<and> (length [str ''abcdefgh''] < 2 \<or> length [str ''abcdefg''] < 2)
   \<and> length (str ''abcdefgh'') > 6
   \<and> 14 / 15 = similarity example_runtime (str ''abcdefgh'') (str ''abcdefg'')
   \<and> (14 / 15 :: rat) > 85 / 100"
    by blast
  from b k have b1: "route [str ''xyz''] [str ''abc''] (str ''abc'') = high_similarity_arm"
    by blast
  with b c have b2: "try_strategies example_runtime (str ''xyz'') [str ''xyz''] (str ''abc'')
      (str ''7'') (str ''abc'') [str ''abc''] initial_search = initial_search"
    by (simp only: if_False simp_thms)
  from e r have e': "HighSimilarityLine (str ''Alpha Gamma'') 0 (str ''7'')
       \<notin> set (lines_added initial_search
           (try_strategies example_runtime (str ''alpha beta'') [str ''alpha'', str ''beta'']
              (str ''Alpha Gamma'') (str ''7'') (str ''alpha gamma'')
              [str ''alpha'', str ''gamma''] initial_search))"
    by blast
  from h a' k b1 b2 r e' show ?thesis by blast
qed

section \<open>Properties of the matcher\<close>

lemma scan_entries_skip:
  assumes "\<forall>e \<in> set before. clean_text_for_matching R (fst e) \<noteq> cpn"
  shows "scan_entries R pdf cpn pw (before @ rest) st =
         scan_entries R pdf cpn pw rest (scan_entries R pdf cpn pw before st)"
  using assms by (induction before arbitrary: st) (auto simp: Let_def)

lemma try_strategies_keeps:
  "matched (try_strategies R a b c d e f st) = matched st
   \<and> matches (try_strategies R a b c d e f st) = matches st
   \<and> unmatched_pdfs (try_strategies R a b c d e f st) = unmatched_pdfs st"
  by (simp add: try_strategies_def Let_def keep_if_better_def say_def)

lemma scan_entries_no_exact:
  assumes "\<forall>e \<in> set before. clean_text_for_matching R (fst e) \<noteq> cpn"
  shows "matched (scan_entries R pdf cpn pw before st) = matched st
       \<and> matches (scan_entries R pdf cpn pw before st) = matches st
       \<and> unmatched_pdfs (scan_entries R pdf cpn pw before st) = unmatched_pdfs st"
  using assms by (induction before arbitrary: st) (auto simp: Let_def try_strategies_keeps)

lemma exact_entry_wins:
  assumes "clean_text_for_matching R doc_name = clean_text_for_matching R (stem pdf)"
      and "\<forall>e \<in> set before.
             clean_text_for_matching R (fst e) \<noteq> clean_text_for_matching R (stem pdf)"
  shows "matches (analyze_pdf R (before @ (doc_name, doc_number) # after) pdf st) =
           matches st @ [\<lparr>m_pdf_file = pdf, m_doc_number = doc_number, m_matched_name = doc_name,
                          m_match_type = exact, m_details = PerfectNormalizedMatch\<rparr>]
       \<and> unmatched_pdfs (analyze_pdf R (before @ (doc_name, doc_number) # after) pdf st)
           = unmatched_pdfs st
       \<and> analyze_pdf R (before @ (doc_name, doc_number) # after) pdf st =
           analyze_pdf R (before @ [(doc_name, doc_number)]) pdf st"
proof -
  let ?cpn = "clean_text_for_matching R (stem pdf)"
  let ?pw = "extract_meaningful_words R (stem pdf) 3"
  let ?st0 = "st\<lparr>matched := False, best := None, best_score := 0\<rparr>"
  let ?mid = "scan_entries R pdf ?cpn ?pw before ?st0"
  have scan: "scan_entries R pdf ?cpn ?pw (before @ (doc_name, doc_number) # rest) ?st0 =
        (say (ExactMatchLine doc_name doc_number) ?mid)
          \<lparr>matches := matches ?mid @
             [\<lparr>m_pdf_file = pdf, m_doc_number = doc_number, m_matched_name = doc_name,
               m_match_type = exact, m_details = PerfectNormalizedMatch\<rparr>],
           matched := True\<rparr>" for rest
    using assms by (simp add: scan_entries_skip Let_def)
  have mid: "matches ?mid = matches st" "unmatched_pdfs ?mid = unmatched_pdfs st"
    using scan_entries_no_exact [OF assms(2), of pdf ?pw ?st0] by simp_all
  show ?thesis
    by (simp add: analyze_pdf_def Let_def scan mid say_def split: option.splits)
qed

text \<open>
  C5: if the normalized stem of a file equals the normalized name of some reference entry, the
  matcher emits such an entry with strategy Exact (the first one in the order of the table,
  should several normalize to the stem), whatever the entries before it scored under the other
  strategies, and it evaluates no entry after it: with any other entries in their place the
  result, printed lines included, is the same.
\<close>

theorem exact_match_precedence:
  assumes "\<exists>e \<in> set name_to_number.
             clean_text_for_matching R (fst e) = clean_text_for_matching R (stem pdf)"
  shows "\<exists>before doc_name doc_number after.
           name_to_number = before @ (doc_name, doc_number) # after
           \<and> clean_text_for_matching R doc_name = clean_text_for_matching R (stem pdf)
           \<and> (\<forall>e \<in> set before.
                 clean_text_for_matching R (fst e) \<noteq> clean_text_for_matching R (stem pdf))
           \<and> matches (analyze_pdf R name_to_number pdf st) =
               matches st @ [\<lparr>m_pdf_file = pdf, m_doc_number = doc_number,
                              m_matched_name = doc_name, m_match_type = exact,
                              m_details = PerfectNormalizedMatch\<rparr>]
           \<and> unmatched_pdfs (analyze_pdf R name_to_number pdf st) = unmatched_pdfs st
           \<and> (\<forall>others. analyze_pdf R (before @ (doc_name, doc_number) # others) pdf st
                          = analyze_pdf R name_to_number pdf st)"
proof -
  let ?P = "\<lambda>e. clean_text_for_matching R (fst e) = clean_text_for_matching R (stem pdf)"
  from split_list_first_prop [OF assms]
  obtain before e after where d: "name_to_number = before @ e # after"
    and e: "?P e" and b: "\<forall>y \<in> set before. \<not> ?P y"
    by blast
  obtain doc_name doc_number where p: "e = (doc_name, doc_number)" by (cases e)
  from e p have h1: "clean_text_for_matching R doc_name = clean_text_for_matching R (stem pdf)"
    by simp
  note w = exact_entry_wins [OF h1 b, of doc_number]
  have "\<forall>others. analyze_pdf R (before @ (doc_name, doc_number) # others) pdf st
                   = analyze_pdf R name_to_number pdf st"
    using w [of _ st] d p by metis
  with w [of after st] d p h1 b show ?thesis by blast
qed

theorem exact_match_precedence_witness:
  "(\<exists>e \<in> set [(str ''Drawing A1 revised plan'', str ''101''), (str ''Drawing A1'', str ''100''),
               (str ''DRAWING-A1'', str ''102'')].
      clean_text_for_matching example_runtime (fst e)
        = clean_text_for_matching example_runtime (stem (pdf_named ''drawing_a1'')))
   \<and> (\<exists>before doc_name doc_number after.
         [(str ''Drawing A1 revised plan'', str ''101''), (str ''Drawing A1'', str ''100''),
          (str ''DRAWING-A1'', str ''102'')] = before @ (doc_name, doc_number) # after
         \<and> matches (analyze_pdf example_runtime
              [(str ''Drawing A1 revised plan'', str ''101''), (str ''Drawing A1'', str ''100''),
               (str ''DRAWING-A1'', str ''102'')] (pdf_named ''drawing_a1'') initial_search) =
             matches initial_search @
               [\<lparr>m_pdf_file = pdf_named ''drawing_a1'', m_doc_number = doc_number,
                 m_matched_name = doc_name, m_match_type = exact,
                 m_details = PerfectNormalizedMatch\<rparr>])
   \<and> matches (analyze_pdf example_runtime
        [(str ''Drawing A1 revised plan'', str ''101''), (str ''Drawing A1'', str ''100''),
         (str ''DRAWING-A1'', str ''102'')] (pdf_named ''drawing_a1'') initial_search) =
       [\<lparr>m_pdf_file = pdf_named ''drawing_a1'', m_doc_number = str ''100'',
         m_matched_name = str ''Drawing A1'', m_match_type = exact,
         m_details = PerfectNormalizedMatch\<rparr>]"
proof -
  have h: "\<exists>e \<in> set [(str ''Drawing A1 revised plan'', str ''101''), (str ''Drawing A1'', str ''100''),
               (str ''DRAWING-A1'', str ''102'')].
      clean_text_for_matching example_runtime (fst e)
        = clean_text_for_matching example_runtime (stem (pdf_named ''drawing_a1''))"
    by code_simp
  have v: "matches (analyze_pdf example_runtime
        [(str ''Drawing A1 revised plan'', str ''101''), (str ''Drawing A1'', str ''100''),
         (str ''DRAWING-A1'', str ''102'')] (pdf_named ''drawing_a1'') initial_search) =
       [\<lparr>m_pdf_file = pdf_named ''drawing_a1'', m_doc_number = str ''100'',
         m_matched_name = str ''Drawing A1'', m_match_type = exact,
         m_details = PerfectNormalizedMatch\<rparr>]"
    by code_simp
  from exact_match_precedence [OF h, of initial_search]
  have "\<exists>before doc_name doc_number after.
         [(str ''Drawing A1 revised plan'', str ''101''), (str ''Drawing A1'', str ''100''),
          (str ''DRAWING-A1'', str ''102'')] = before @ (doc_name, doc_number) # after
         \<and> matches (analyze_pdf example_runtime
              [(str ''Drawing A1 revised plan'', str ''101''), (str ''Drawing A1'', str ''100''),
               (str ''DRAWING-A1'', str ''102'')] (pdf_named ''drawing_a1'') initial_search) =
             matches initial_search @
               [\<lparr>m_pdf_file = pdf_named ''drawing_a1'', m_doc_number = doc_number,
                 m_matched_name = doc_name, m_match_type = exact,
                 m_details = PerfectNormalizedMatch\<rparr>]"
    by blast
  with h v show ?thesis by blast
qed


section \<open>Properties of the rename and undo executors\<close>

text \<open>
  C1 holds of the specification and fails on the code. When the rename of a file raises, the
  file is counted as not renamed, but its entry is already in \<open>rename_history\<close> (the assignment
  precedes \<open>pdf_file.rename\<close> inside the \<open>try\<close>) and is written to the ledger. Here the only
  rename of the batch raises: the count is 0, the file is where it was, and the ledger written
  holds the key \<open>7a.pdf\<close>, a path that does not exist.
\<close>

theorem failed_rename_is_recorded:
  "snd (perform_renaming locked [exact_match_of ''a'' ''7'']
          (disk_with [(in_root ''a.pdf'', 1)] NoBackup)) = 0
   \<and> backup (fst (perform_renaming locked [exact_match_of ''a'' ''7'']
                 (disk_with [(in_root ''a.pdf'', 1)] NoBackup)))
       = Backup [(in_root ''7a.pdf'', in_root ''a.pdf'')]
   \<and> files (fst (perform_renaming locked [exact_match_of ''a'' ''7'']
                 (disk_with [(in_root ''a.pdf'', 1)] NoBackup))) (in_root ''7a.pdf'') = None
   \<and> files (fst (perform_renaming locked [exact_match_of ''a'' ''7'']
                 (disk_with [(in_root ''a.pdf'', 1)] NoBackup))) (in_root ''a.pdf'') = Some 1"
  by code_simp

lemma rename_file_Inr:
  assumes "rename_file E fs src dst = Inr fs'"
  shows "\<exists>c. fs src = Some c \<and> fs' = (fs(src := None))(dst \<mapsto> c)"
  using assms by (auto simp: rename_file_def split: if_splits option.splits)

lemma rename_one_cases:
  "rename_one E m st = st
   \<or> (\<exists>c. r_files st (relative_original_path (m_pdf_file m)) = Some c
          \<and> r_files st (relative_new_path m) = None
          \<and> r_files (rename_one E m st) =
              ((r_files st)(relative_original_path (m_pdf_file m) := None))
                (relative_new_path m \<mapsto> c))
   \<or> r_files (rename_one E m st) = r_files st"
proof (cases "rename_file E (r_files st) (relative_original_path (m_pdf_file m)) (relative_new_path m)")
  case (Inl e)
  then show ?thesis by (simp add: rename_one_def Let_def)
next
  case (Inr fs')
  from rename_file_Inr [OF Inr] show ?thesis using Inr
    by (auto simp: rename_one_def Let_def path_exists_def)
qed

lemma rename_one_bystander:
  assumes "r_files st p = Some c" and "p \<noteq> relative_original_path (m_pdf_file m)"
  shows "r_files (rename_one E m st) p = Some c"
  using rename_one_cases [of E m st] assms by (elim disjE exE conjE) auto

lemma rename_one_keeps:
  assumes "r_files st p = Some c"
  shows "\<exists>q. r_files (rename_one E m st) q = Some c"
proof (cases "p = relative_original_path (m_pdf_file m)")
  case False
  with assms rename_one_bystander [where st = st and p = p and c = c and m = m and E = E]
  show ?thesis by blast
next
  case True
  from rename_one_cases [of E m st] show ?thesis
  proof (elim disjE exE conjE)
    assume "rename_one E m st = st"
    with assms show ?thesis by metis
  next
    fix c'
    assume "r_files st (relative_original_path (m_pdf_file m)) = Some c'"
      and "r_files (rename_one E m st) =
              ((r_files st)(relative_original_path (m_pdf_file m) := None))
                (relative_new_path m \<mapsto> c')"
    with assms True have "r_files (rename_one E m st) (relative_new_path m) = Some c" by simp
    then show ?thesis ..
  next
    assume "r_files (rename_one E m st) = r_files st"
    with assms show ?thesis by metis
  qed
qed

lemma rename_matches_bystander:
  assumes "r_files st p = Some c" and "p \<notin> set (sources ms)"
  shows "r_files (rename_matches E ms st) p = Some c"
  using assms by (induction ms arbitrary: st) (auto simp: rename_one_bystander sources_def)

lemma rename_matches_keeps:
  assumes "r_files st p = Some c"
  shows "\<exists>q. r_files (rename_matches E ms st) q = Some c"
  using assms
proof (induction ms arbitrary: st p)
  case Nil
  then show ?case by auto
next
  case (Cons m ms)
  from rename_one_keeps [where st = st and p = p and c = c and m = m and E = E] Cons.prems
  obtain q where "r_files (rename_one E m st) q = Some c" by blast
  then have "\<exists>q. r_files (rename_matches E ms (rename_one E m st)) q = Some c"
    by (rule Cons.IH [where st = "rename_one E m st" and p = q])
  then show ?case by simp
qed

text \<open>One step of the undo loop either leaves the files alone or moves one file to a free path.\<close>

lemma revert_step_cases:
  "revert_files E ((cur, orig) # rest) fs rv = Inl fs
   \<or> revert_files E ((cur, orig) # rest) fs rv = revert_files E rest fs rv
   \<or> (\<exists>c. fs cur = Some c \<and> (orig \<noteq> cur \<longrightarrow> fs orig = None)
          \<and> revert_files E ((cur, orig) # rest) fs rv =
              revert_files E rest ((fs(cur := None))(orig \<mapsto> c)) (rv @ [cur]))"
proof (cases "rename_file E fs cur orig")
  case (Inl e)
  then show ?thesis by simp
next
  case (Inr fs')
  from rename_file_Inr [OF Inr] show ?thesis using Inr by (auto simp: path_exists_def)
qed

lemma revert_files_bystander:
  assumes "fs p = Some c" and "p \<notin> fst ` set items"
  shows "final_files (revert_files E items fs rv) p = Some c"
  using assms
proof (induction items arbitrary: fs rv)
  case Nil
  then show ?case by (simp add: final_files_def)
next
  case (Cons e items)
  obtain cur orig where e: "e = (cur, orig)" by (cases e)
  from Cons.prems e have ne: "p \<noteq> cur" and rest: "p \<notin> fst ` set items" by auto
  from revert_step_cases [of E cur orig items fs rv] show ?case
  proof (elim disjE exE conjE)
    assume "revert_files E ((cur, orig) # items) fs rv = Inl fs"
    with Cons.prems(1) e show ?thesis by (simp add: final_files_def)
  next
    assume "revert_files E ((cur, orig) # items) fs rv = revert_files E items fs rv"
    with Cons.IH [where fs = fs and rv = rv] Cons.prems(1) rest e show ?thesis by simp
  next
    fix c'
    assume c': "fs cur = Some c'" and free: "orig \<noteq> cur \<longrightarrow> fs orig = None"
      and step: "revert_files E ((cur, orig) # items) fs rv =
              revert_files E items ((fs(cur := None))(orig \<mapsto> c')) (rv @ [cur])"
    define fs' where "fs' = (fs(cur := None))(orig \<mapsto> c')"
    from free Cons.prems(1) ne have "fs' p = Some c" by (auto simp: fs'_def)
    from this rest have "final_files (revert_files E items fs' (rv @ [cur])) p = Some c"
      by (rule Cons.IH [where fs = fs' and rv = "rv @ [cur]"])
    then show ?thesis unfolding e step fs'_def .
  qed
qed

lemma revert_files_keeps:
  assumes "fs p = Some c"
  shows "\<exists>q. final_files (revert_files E items fs rv) q = Some c"
  using assms
proof (induction items arbitrary: fs rv p)
  case Nil
  then show ?case by (auto simp: final_files_def)
next
  case (Cons e items)
  obtain cur orig where e: "e = (cur, orig)" by (cases e)
  from revert_step_cases [of E cur orig items fs rv] show ?case
  proof (elim disjE exE conjE)
    assume "revert_files E ((cur, orig) # items) fs rv = Inl fs"
    with Cons.prems e show ?thesis by (auto simp: final_files_def)
  next
    assume "revert_files E ((cur, orig) # items) fs rv = revert_files E items fs rv"
    with Cons.IH [where fs = fs and p = p and rv = rv] Cons.prems e show ?thesis by simp
  next
    fix c'
    assume c': "fs cur = Some c'" and free: "orig \<noteq> cur \<longrightarrow> fs orig = None"
      and step: "revert_files E ((cur, orig) # items) fs rv =
              revert_files E items ((fs(cur := None))(orig \<mapsto> c')) (rv @ [cur])"
    define fs' where "fs' = (fs(cur := None))(orig \<mapsto> c')"
    have "\<exists>q. fs' q = Some c"
    proof (cases "p = cur")
      case True
      with c' Cons.prems have "fs' orig = Some c" by (simp add: fs'_def)
      then show ?thesis ..
    next
      case False
      with free Cons.prems have "fs' p = Some c" by (auto simp: fs'_def)
      then show ?thesis ..
    qed
    then obtain q where "fs' q = Some c" ..
    then have "\<exists>q. final_files (revert_files E items fs' (rv @ [cur])) q = Some c"
      by (rule Cons.IH [where fs = fs' and p = q and rv = "rv @ [cur]"])
    then show ?thesis unfolding e step fs'_def .
  qed
qed

lemma dict_set_map_fst:
  "map fst (dict_set d k v) = (if k \<in> fst ` set d then map fst d else map fst d @ [k])"
proof (induction d)
  case Nil
  show ?case by simp
next
  case (Cons x d)
  obtain k' v' where x: "x = (k', v')" by (cases x)
  show ?case
  proof (cases "k' = k")
    case True
    with x show ?thesis by simp
  next
    case False
    with x Cons.IH show ?thesis by (cases "k \<in> fst ` set d") simp_all
  qed
qed

lemma dict_set_keys: "fst ` set (dict_set d k v) = insert k (fst ` set d)"
proof -
  have "set (map fst (dict_set d k v)) = insert k (set (map fst d))"
    by (simp only: dict_set_map_fst) auto
  then show ?thesis by simp
qed

lemma dict_update_keys: "fst ` set (dict_update d other) = fst ` set d \<union> fst ` set other"
proof (induction other arbitrary: d)
  case Nil
  then show ?case by (simp add: dict_update_def)
next
  case (Cons x other)
  have "dict_update d (x # other) = dict_update (dict_set d (fst x) (snd x)) other"
    by (simp add: dict_update_def case_prod_beta)
  then show ?case using Cons.IH [of "dict_set d (fst x) (snd x)"] by (simp add: dict_set_keys)
qed

lemma json_load_keys: "fst ` set (json_load pairs) = fst ` set pairs"
  by (simp add: json_load_def dict_update_keys)

lemma undo_renames_files:
  "files (undo_renames E proceed w) = files w
   \<or> (\<exists>pairs. backup w = Backup pairs \<and>
        files (undo_renames E proceed w) =
          final_files (revert_files E
            (filter (\<lambda>(cur, orig). path_exists (files w) cur) (json_load pairs)) (files w) []))"
proof (cases "backup w")
  case (Backup pairs)
  then show ?thesis
    by (cases "revert_files E
            (filter (\<lambda>(cur, orig). path_exists (files w) cur) (json_load pairs)) (files w) []")
       (auto simp: undo_renames_def Let_def final_files_def)
qed (simp_all add: undo_renames_def)

lemma perform_renaming_files:
  "files (fst (perform_renaming E ms w)) =
     r_files (rename_matches E ms \<lparr>r_files = files w, rename_history = [], renamed_count = 0\<rparr>)"
  by (simp add: perform_renaming_def Let_def)

text \<open>
  C6: neither pass overwrites or deletes a file. A rename whose target exists is skipped, and
  so is an undo entry whose original path exists and differs from the current path: the state
  is what it was. Over a whole pass, whatever the system refuses and whatever the answer to
  the prompt, every file that was in the folder is still in the folder afterwards, and a file
  that the pass is not itself moving (it is not a source of the batch, or not a key of the
  ledger) is still at its path. The statement holds for every content type, so also when each
  file carries a content of its own: no file is lost behind another.
\<close>

theorem collision_safety:
  "(path_exists (r_files st) (relative_new_path m) \<longrightarrow> rename_one E m st = st)
   \<and> (path_exists fs orig \<and> orig \<noteq> cur \<and> \<not> mkdir_raises E (folders orig) \<longrightarrow>
        revert_files E ((cur, orig) # rest) fs rv = revert_files E rest fs rv)
   \<and> (files w p = Some c \<longrightarrow>
        (\<exists>q. files (fst (perform_renaming E ms w)) q = Some c)
        \<and> (p \<notin> set (sources ms) \<longrightarrow> files (fst (perform_renaming E ms w)) p = Some c)
        \<and> (\<exists>q. files (undo_renames E proceed w) q = Some c)
        \<and> (p \<notin> ledger_keys (backup w) \<longrightarrow> files (undo_renames E proceed w) p = Some c))"
proof (intro conjI impI)
  show "rename_one E m st = st" if "path_exists (r_files st) (relative_new_path m)"
    using that by (simp add: rename_one_def)
  show "revert_files E ((cur, orig) # rest) fs rv = revert_files E rest fs rv"
    if "path_exists fs orig \<and> orig \<noteq> cur \<and> \<not> mkdir_raises E (folders orig)"
    using that by simp
next
  let ?st0 = "\<lparr>r_files = files w, rename_history = [], renamed_count = 0\<rparr>"
  assume p: "files w p = Some c"
  then have p0: "r_files ?st0 p = Some c" by simp
  have "\<exists>q. r_files (rename_matches E ms ?st0) q = Some c"
    using p0 by (rule rename_matches_keeps)
  then show "\<exists>q. files (fst (perform_renaming E ms w)) q = Some c"
    by (simp only: perform_renaming_files)
  show "files (fst (perform_renaming E ms w)) p = Some c" if "p \<notin> set (sources ms)"
  proof -
    have "r_files (rename_matches E ms ?st0) p = Some c"
      using p0 that by (rule rename_matches_bystander)
    then show ?thesis by (simp only: perform_renaming_files)
  qed
  show "\<exists>q. files (undo_renames E proceed w) q = Some c"
    using undo_renames_files [of E proceed w] p
      revert_files_keeps [where fs = "files w" and p = p and c = c and E = E and rv = "[]"]
    by metis
  show "files (undo_renames E proceed w) p = Some c" if h: "p \<notin> ledger_keys (backup w)"
  proof -
    from undo_renames_files [of E proceed w] show ?thesis
    proof (elim disjE exE conjE)
      assume "files (undo_renames E proceed w) = files w"
      with p show ?thesis by simp
    next
      fix pairs
      let ?items = "filter (\<lambda>(cur, orig). path_exists (files w) cur) (json_load pairs)"
      assume b: "backup w = Backup pairs"
        and f: "files (undo_renames E proceed w) = final_files (revert_files E ?items (files w) [])"
      from h b have "p \<notin> fst ` set pairs" by (simp add: ledger_keys_def ledger_pairs_def)
      then have "p \<notin> fst ` set (json_load pairs)" by (simp add: json_load_keys)
      then have "p \<notin> fst ` set ?items" by auto
      from revert_files_bystander [where fs = "files w" and p = p and c = c and items = ?items
          and E = E and rv = "[]"] p this f
      show ?thesis by simp
    qed
  qed
qed


subsection \<open>The ledger as a dictionary\<close>

lemma map_of_dict_set: "map_of (dict_set d k v) = (map_of d)(k \<mapsto> v)"
  by (induction d) (auto simp: fun_eq_iff)

lemma dict_update_Cons: "dict_update d ((k, v) # l) = dict_update (dict_set d k v) l"
  by (simp add: dict_update_def)

lemma distinct_dict_set: "distinct (map fst d) \<Longrightarrow> distinct (map fst (dict_set d k v))"
  by (simp add: dict_set_map_fst)

lemma distinct_dict_update: "distinct (map fst d) \<Longrightarrow> distinct (map fst (dict_update d l))"
proof (induction l arbitrary: d)
  case Nil
  then show ?case by (simp add: dict_update_def)
next
  case (Cons x l)
  obtain k v where x: "x = (k, v)" by (cases x)
  from Cons.prems have "distinct (map fst (dict_set d k v))" by (rule distinct_dict_set)
  then have "distinct (map fst (dict_update (dict_set d k v) l))" by (rule Cons.IH)
  then show ?case by (simp add: x dict_update_Cons)
qed

lemma dict_set_fresh: "k \<notin> fst ` set d \<Longrightarrow> dict_set d k v = d @ [(k, v)]"
  by (induction d) auto

lemma dict_update_fresh:
  assumes "distinct (map fst l)" and "fst ` set d \<inter> fst ` set l = {}"
  shows "dict_update d l = d @ l"
  using assms
proof (induction l arbitrary: d)
  case Nil
  then show ?case by (simp add: dict_update_def)
next
  case (Cons x l)
  obtain k v where x: "x = (k, v)" by (cases x)
  from Cons.prems x have k: "k \<notin> fst ` set d" and kl: "k \<notin> fst ` set l"
    and dl: "distinct (map fst l)" and disj: "fst ` set d \<inter> fst ` set l = {}"
    by auto
  from k have s: "dict_set d k v = d @ [(k, v)]" by (rule dict_set_fresh)
  from kl disj have "fst ` set (d @ [(k, v)]) \<inter> fst ` set l = {}" by auto
  with dl have "dict_update (d @ [(k, v)]) l = (d @ [(k, v)]) @ l" by (rule Cons.IH)
  then show ?case by (simp add: x dict_update_Cons s)
qed

lemma json_load_distinct: "distinct (map fst l) \<Longrightarrow> json_load l = l"
  using dict_update_fresh [of l "[]"] by (simp add: json_load_def)

lemma map_of_dict_update_other:
  "k \<notin> fst ` set l \<Longrightarrow> map_of (dict_update d l) k = map_of d k"
proof (induction l arbitrary: d)
  case Nil
  then show ?case by (simp add: dict_update_def)
next
  case (Cons x l)
  obtain k' v' where x: "x = (k', v')" by (cases x)
  from Cons.prems x have ne: "k \<noteq> k'" and kl: "k \<notin> fst ` set l" by auto
  from kl have "map_of (dict_update (dict_set d k' v') l) k = map_of (dict_set d k' v') k"
    by (rule Cons.IH)
  with ne show ?case by (simp add: x dict_update_Cons map_of_dict_set)
qed

lemma map_of_dict_update_new:
  assumes "distinct (map fst l)" and "(k, v) \<in> set l"
  shows "map_of (dict_update d l) k = Some v"
  using assms
proof (induction l arbitrary: d)
  case Nil
  then show ?case by simp
next
  case (Cons x l)
  obtain k' v' where x: "x = (k', v')" by (cases x)
  show ?case
  proof (cases "(k, v) = (k', v')")
    case True
    with Cons.prems(1) x have "k \<notin> fst ` set l" by auto
    then have "map_of (dict_update (dict_set d k v) l) k = map_of (dict_set d k v) k"
      by (rule map_of_dict_update_other)
    with True show ?thesis by (simp add: x dict_update_Cons map_of_dict_set)
  next
    case False
    with Cons.prems x have d: "distinct (map fst l)" and m: "(k, v) \<in> set l" by auto
    from d m have "map_of (dict_update (dict_set d k' v') l) k = Some v" by (rule Cons.IH)
    then show ?thesis by (simp add: x dict_update_Cons)
  qed
qed

subsection \<open>A rename that succeeds, to the end of the batch\<close>

lemma rename_matches_append:
  "rename_matches E (xs @ ys) st = rename_matches E ys (rename_matches E xs st)"
  by (induction xs arbitrary: st) simp_all

lemma rename_one_success:
  assumes "\<not> path_exists (r_files st) (relative_new_path m)"
      and "\<not> rename_raises E (relative_original_path (m_pdf_file m)) (relative_new_path m)"
      and "r_files st (relative_original_path (m_pdf_file m)) = Some c"
  shows "r_files (rename_one E m st) (relative_new_path m) = Some c
       \<and> map_of (rename_history (rename_one E m st)) (relative_new_path m)
           = Some (relative_original_path (m_pdf_file m))"
  using assms by (simp add: rename_one_def rename_file_def Let_def map_of_dict_set)

lemma rename_one_holds:
  assumes "r_files st n = Some c" and "map_of (rename_history st) n = Some orig"
      and "relative_original_path (m_pdf_file x) \<noteq> n"
  shows "r_files (rename_one E x st) n = Some c
       \<and> map_of (rename_history (rename_one E x st)) n = Some orig"
proof (cases "path_exists (r_files st) (relative_new_path x)")
  case True
  with assms show ?thesis by (simp add: rename_one_def)
next
  case False
  with assms(1) have ne: "relative_new_path x \<noteq> n" by (auto simp: path_exists_def)
  let ?h = "dict_set (rename_history st) (relative_new_path x)
              (relative_original_path (m_pdf_file x))"
  from ne assms(2) have h: "map_of ?h n = Some orig" by (simp add: map_of_dict_set)
  show ?thesis
  proof (cases "rename_file E (r_files st) (relative_original_path (m_pdf_file x))
                  (relative_new_path x)")
    case (Inl e)
    with False assms(1) h show ?thesis by (simp add: rename_one_def Let_def)
  next
    case (Inr fs')
    from rename_file_Inr [OF Inr] ne assms(1,3) have "fs' n = Some c" by auto
    with False Inr h show ?thesis by (simp add: rename_one_def Let_def)
  qed
qed

lemma rename_matches_holds:
  assumes "r_files st n = Some c" and "map_of (rename_history st) n = Some orig"
      and "n \<notin> set (sources post)"
  shows "r_files (rename_matches E post st) n = Some c
       \<and> map_of (rename_history (rename_matches E post st)) n = Some orig"
  using assms
proof (induction post arbitrary: st)
  case Nil
  then show ?case by simp
next
  case (Cons x post)
  from Cons.prems(3) have x: "relative_original_path (m_pdf_file x) \<noteq> n"
    and rest: "n \<notin> set (sources post)" by (auto simp: sources_def)
  from rename_one_holds [OF Cons.prems(1,2) x, of E]
  have a: "r_files (rename_one E x st) n = Some c"
    and b: "map_of (rename_history (rename_one E x st)) n = Some orig" by simp_all
  from a b rest show ?case unfolding rename_matches.simps by (rule Cons.IH)
qed

lemma rename_one_history_distinct:
  "distinct (map fst (rename_history st)) \<Longrightarrow>
   distinct (map fst (rename_history (rename_one E m st)))"
  by (auto simp: rename_one_def Let_def distinct_dict_set split: sum.splits)

lemma rename_matches_history_distinct:
  "distinct (map fst (rename_history st)) \<Longrightarrow>
   distinct (map fst (rename_history (rename_matches E ms st)))"
  by (induction ms arbitrary: st) (simp_all add: rename_one_history_distinct)


subsection \<open>The undo loop when the system refuses nothing\<close>

lemma revert_step_willing:
  assumes "refuses_nothing E"
  shows "revert_files E ((k, v) # rest) fs rv =
     (if path_exists fs v \<and> v \<noteq> k then revert_files E rest fs rv
      else case fs k of
             None \<Rightarrow> revert_files E rest fs rv
           | Some c \<Rightarrow> revert_files E rest ((fs(k := None))(v \<mapsto> c)) (rv @ [k]))"
  using assms by (simp add: refuses_nothing_def rename_file_def split: option.splits)

lemma revert_after:
  assumes "refuses_nothing E" and "fs orig = Some c"
      and "orig \<notin> fst ` set items" and "orig \<notin> snd ` set items"
  shows "\<exists>fs' rv'. revert_files E items fs rv = Inr (fs', rv') \<and> fs' orig = Some c
                   \<and> set rv \<subseteq> set rv'"
  using assms(2-)
proof (induction items arbitrary: fs rv)
  case Nil
  then show ?case by simp
next
  case (Cons e items)
  obtain k v where e: "e = (k, v)" by (cases e)
  from Cons.prems e have ko: "k \<noteq> orig" and vo: "v \<noteq> orig"
    and r1: "orig \<notin> fst ` set items" and r2: "orig \<notin> snd ` set items" by auto
  note step = revert_step_willing [OF assms(1), of k v items fs rv]
  show ?case
  proof (cases "(path_exists fs v \<and> v \<noteq> k) \<or> fs k = None")
    case True
    then have "revert_files E (e # items) fs rv = revert_files E items fs rv"
      using step e by auto
    with Cons.IH [where fs = fs and rv = rv, OF Cons.prems(1) r1 r2] show ?thesis by simp
  next
    case False
    then obtain c' where c': "fs k = Some c'" by auto
    define fs1 where "fs1 = (fs(k := None))(v \<mapsto> c')"
    from False c' have s: "revert_files E (e # items) fs rv = revert_files E items fs1 (rv @ [k])"
      using step e by (auto simp: fs1_def)
    from ko vo Cons.prems(1) have "fs1 orig = Some c" by (simp add: fs1_def)
    from Cons.IH [where fs = fs1 and rv = "rv @ [k]", OF this r1 r2] s show ?thesis by auto
  qed
qed

lemma revert_restores:
  assumes "refuses_nothing E" and "distinct (map fst items)" and "(n, orig) \<in> set items"
      and "fs n = Some c" and "fs orig = None" and "orig \<notin> fst ` set items"
      and "\<forall>(k, v) \<in> set items. v = orig \<longrightarrow> k = n"
  shows "\<exists>fs' rv'. revert_files E items fs rv = Inr (fs', rv') \<and> fs' orig = Some c
                   \<and> n \<in> set rv'"
  using assms(2-)
proof (induction items arbitrary: fs rv)
  case Nil
  then show ?case by simp
next
  case (Cons e items)
  obtain k v where e: "e = (k, v)" by (cases e)
  note step = revert_step_willing [OF assms(1), of k v items fs rv]
  from Cons.prems(1) e have kfresh: "k \<notin> fst ` set items" and d: "distinct (map fst items)"
    by auto
  from Cons.prems(5) e have ko: "k \<noteq> orig" and r1: "orig \<notin> fst ` set items" by auto
  from Cons.prems(6) e have only: "\<forall>(k, v) \<in> set items. v = orig \<longrightarrow> k = n" by auto
  show ?case
  proof (cases "(k, v) = (n, orig)")
    case True
    then have kn: "k = n" and vo: "v = orig" by simp_all
    define fs1 where "fs1 = (fs(n := None))(orig \<mapsto> c)"
    from Cons.prems(3,4) kn vo
    have s: "revert_files E (e # items) fs rv = revert_files E items fs1 (rv @ [n])"
      using step e by (simp add: fs1_def path_exists_def)
    have f1: "fs1 orig = Some c" by (simp add: fs1_def)
    have r2: "orig \<notin> snd ` set items"
    proof
      assume "orig \<in> snd ` set items"
      then obtain k' where "(k', orig) \<in> set items" by force
      with only have "k' = n" by auto
      with \<open>(k', orig) \<in> set items\<close> have "n \<in> fst ` set items" by force
      with kfresh kn show False by simp
    qed
    from revert_after [where fs = fs1 and rv = "rv @ [n]", OF assms(1) f1 r1 r2] s
    show ?thesis by auto
  next
    case False
    with Cons.prems(2) e have mem: "(n, orig) \<in> set items" by auto
    then have "n \<in> fst ` set items" by force
    with kfresh have kn: "k \<noteq> n" by auto
    from Cons.prems(6) e kn have vo: "v \<noteq> orig" by auto
    show ?thesis
    proof (cases "(path_exists fs v \<and> v \<noteq> k) \<or> fs k = None")
      case True
      then have "revert_files E (e # items) fs rv = revert_files E items fs rv"
        using step e by auto
      with Cons.IH [where fs = fs and rv = rv, OF d mem Cons.prems(3,4) r1 only]
      show ?thesis by simp
    next
      case False
      then obtain c' where c': "fs k = Some c'" by auto
      define fs1 where "fs1 = (fs(k := None))(v \<mapsto> c')"
      from False c'
      have s: "revert_files E (e # items) fs rv = revert_files E items fs1 (rv @ [k])"
        using step e by (auto simp: fs1_def)
      from False Cons.prems(3) kn have vn: "v \<noteq> n" by (auto simp: path_exists_def)
      from vn kn Cons.prems(3) have f1: "fs1 n = Some c" by (simp add: fs1_def)
      from vo Cons.prems(4) have f2: "fs1 orig = None" by (simp add: fs1_def)
      from Cons.IH [where fs = fs1 and rv = "rv @ [k]", OF d mem f1 f2 r1 only] s
      show ?thesis by simp
    qed
  qed
qed

text \<open>
  A path that is free and is no entry's original path stays free through the undo loop, and
  the current path of a reverted entry that is no entry's original path is free at the end.
\<close>

lemma revert_files_free:
  assumes "fs p = None" and "p \<notin> snd ` set items"
  shows "final_files (revert_files E items fs rv) p = None"
  using assms
proof (induction items arbitrary: fs rv)
  case Nil
  then show ?case by (simp add: final_files_def)
next
  case (Cons e items)
  obtain cur orig where e: "e = (cur, orig)" by (cases e)
  from Cons.prems(2) e have po: "p \<noteq> orig" and rest: "p \<notin> snd ` set items" by auto
  from revert_step_cases [of E cur orig items fs rv] show ?case
  proof (elim disjE exE conjE)
    assume "revert_files E ((cur, orig) # items) fs rv = Inl fs"
    with Cons.prems(1) e show ?thesis by (simp add: final_files_def)
  next
    assume "revert_files E ((cur, orig) # items) fs rv = revert_files E items fs rv"
    with Cons.IH [where fs = fs and rv = rv] Cons.prems(1) rest e show ?thesis by simp
  next
    fix c'
    assume step: "revert_files E ((cur, orig) # items) fs rv =
              revert_files E items ((fs(cur := None))(orig \<mapsto> c')) (rv @ [cur])"
    define fs' where "fs' = (fs(cur := None))(orig \<mapsto> c')"
    from po Cons.prems(1) have "fs' p = None" by (simp add: fs'_def)
    from this rest have "final_files (revert_files E items fs' (rv @ [cur])) p = None"
      by (rule Cons.IH [where fs = fs' and rv = "rv @ [cur]"])
    then show ?thesis unfolding e step fs'_def .
  qed
qed

lemma revert_vacates:
  assumes "refuses_nothing E" and "revert_files E items fs rv = Inr (fs', rv')"
      and "n \<in> set rv'" and "n \<notin> set rv" and "n \<notin> snd ` set items"
  shows "fs' n = None"
  using assms(2-)
proof (induction items arbitrary: fs rv)
  case Nil
  then show ?case by auto
next
  case (Cons e items)
  obtain k v where e: "e = (k, v)" by (cases e)
  from Cons.prems(4) e have vn: "v \<noteq> n" and rest: "n \<notin> snd ` set items" by auto
  note step = revert_step_willing [OF assms(1), of k v items fs rv]
  show ?case
  proof (cases "(path_exists fs v \<and> v \<noteq> k) \<or> fs k = None")
    case True
    then have "revert_files E (e # items) fs rv = revert_files E items fs rv"
      using step e by auto
    with Cons.prems(1) have "revert_files E items fs rv = Inr (fs', rv')" by simp
    from this Cons.prems(2,3) rest show ?thesis
      by (rule Cons.IH [where fs = fs and rv = rv])
  next
    case False
    then obtain c' where c': "fs k = Some c'" by auto
    define fs1 where "fs1 = (fs(k := None))(v \<mapsto> c')"
    from False c' have "revert_files E (e # items) fs rv = revert_files E items fs1 (rv @ [k])"
      using step e by (auto simp: fs1_def)
    with Cons.prems(1) have s: "revert_files E items fs1 (rv @ [k]) = Inr (fs', rv')" by simp
    show ?thesis
    proof (cases "k = n")
      case True
      with vn have "fs1 n = None" by (simp add: fs1_def)
      from this rest have "final_files (revert_files E items fs1 (rv @ [k])) n = None"
        by (rule revert_files_free)
      with s show ?thesis by (simp add: final_files_def)
    next
      case False
      with Cons.prems(3) have "n \<notin> set (rv @ [k])" by simp
      from s Cons.prems(2) this rest show ?thesis
        by (rule Cons.IH [where fs = fs1 and rv = "rv @ [k]"])
    qed
  qed
qed

lemma update_backup_willing:
  assumes "refuses_nothing E" and "n \<in> set rv"
  shows "n \<notin> ledger_keys (update_backup E data rv b)
       \<and> (ledger_keys (update_backup E data rv b) = {} \<longrightarrow> update_backup E data rv b = NoBackup)"
proof -
  let ?u = "filter (\<lambda>(k, v). k \<notin> set rv) data"
  from assms(2) have rv: "rv \<noteq> []" by auto
  from assms(1) have e: "\<not> write_raises E" "\<not> unlink_raises E"
    by (simp_all add: refuses_nothing_def)
  have n: "n \<notin> fst ` set ?u" using assms(2) by auto
  show ?thesis
  proof (cases "?u = []")
    case True
    with rv e show ?thesis
      by (simp add: update_backup_def Let_def ledger_keys_def ledger_pairs_def)
  next
    case False
    with rv e have u: "update_backup E data rv b = Backup ?u"
      by (simp add: update_backup_def Let_def)
    from False have "fst ` set ?u \<noteq> {}" by (metis image_is_empty set_empty)
    with n show ?thesis by (simp add: u ledger_keys_def ledger_pairs_def)
  qed
qed


theorem collision_safety_witness:
  "path_exists (files busy_disk) (relative_new_path (exact_match_of ''x'' ''5''))
   \<and> rename_one willing (exact_match_of ''x'' ''5'')
        \<lparr>r_files = files busy_disk, rename_history = [], renamed_count = 0\<rparr>
       = \<lparr>r_files = files busy_disk, rename_history = [], renamed_count = 0\<rparr>
   \<and> path_exists (files busy_disk) (in_root ''x.pdf'')
   \<and> in_root ''x.pdf'' \<noteq> in_root ''5x.pdf''
   \<and> \<not> mkdir_raises willing (folders (in_root ''x.pdf''))
   \<and> revert_files willing [(in_root ''5x.pdf'', in_root ''x.pdf'')] (files busy_disk) []
       = revert_files willing [] (files busy_disk) []
   \<and> files busy_disk (in_root ''5x.pdf'') = Some 4
   \<and> in_root ''5x.pdf'' \<notin> set (sources [exact_match_of ''x'' ''5'', exact_match_of ''a'' ''7''])
   \<and> files (fst (perform_renaming willing [exact_match_of ''x'' ''5'', exact_match_of ''a'' ''7'']
                     busy_disk)) (in_root ''5x.pdf'') = Some 4
   \<and> files busy_disk (in_root ''x.pdf'') = Some 3
   \<and> in_root ''x.pdf'' \<notin> ledger_keys (backup busy_disk)
   \<and> files (undo_renames willing True busy_disk) (in_root ''x.pdf'') = Some 3"
proof -
  let ?st = "\<lparr>r_files = files busy_disk, rename_history = [], renamed_count = 0\<rparr>"
  let ?ms = "[exact_match_of ''x'' ''5'', exact_match_of ''a'' ''7'']"
  have h1: "path_exists (r_files ?st) (relative_new_path (exact_match_of ''x'' ''5''))"
    by code_simp
  have h2: "path_exists (files busy_disk) (in_root ''x.pdf'') \<and> in_root ''x.pdf'' \<noteq> in_root ''5x.pdf''
            \<and> \<not> mkdir_raises willing (folders (in_root ''x.pdf''))"
    by code_simp
  have h3: "files busy_disk (in_root ''5x.pdf'') = Some 4" by code_simp
  have h4: "in_root ''5x.pdf'' \<notin> set (sources ?ms)" by code_simp
  have h5: "files busy_disk (in_root ''x.pdf'') = Some 3" by code_simp
  have h6: "in_root ''x.pdf'' \<notin> ledger_keys (backup busy_disk)" by code_simp
  note a = collision_safety [of ?st "exact_match_of ''x'' ''5''" willing "files busy_disk"
      "in_root ''x.pdf''" "in_root ''5x.pdf''" "[]" "[]" busy_disk "in_root ''5x.pdf''" 4 ?ms True]
  note b = collision_safety [of ?st "exact_match_of ''x'' ''5''" willing "files busy_disk"
      "in_root ''x.pdf''" "in_root ''5x.pdf''" "[]" "[]" busy_disk "in_root ''x.pdf''" 3 ?ms True]
  from h1 have g1: "path_exists (files busy_disk) (relative_new_path (exact_match_of ''x'' ''5''))"
    by simp
  from a h1 have g2: "rename_one willing (exact_match_of ''x'' ''5'') ?st = ?st" by blast
  from a h2 have g3: "revert_files willing [(in_root ''5x.pdf'', in_root ''x.pdf'')]
      (files busy_disk) [] = revert_files willing [] (files busy_disk) []" by blast
  from a h3 h4 have g4: "files (fst (perform_renaming willing ?ms busy_disk)) (in_root ''5x.pdf'')
      = Some 4" by blast
  from b h5 h6 have g5: "files (undo_renames willing True busy_disk) (in_root ''x.pdf'') = Some 3"
    by blast
  from g1 g2 h2 g3 h3 h4 g4 h5 h6 g5 show ?thesis by blast
qed

text \<open>
  C4, as stated, fails: a file that was renamed without collision or error is not always moved
  back by the undo that follows. \<open>0plan.pdf\<close> is renamed to \<open>10plan.pdf\<close>, then \<open>plan.pdf\<close> to
  the path just vacated, \<open>0plan.pdf\<close>. Undo finds the original path of the first file occupied
  and skips the entry: the file stays at \<open>10plan.pdf\<close> and its key stays in the ledger.
\<close>

theorem undo_skips_renamed_file:
  "files chain_renamed (in_root ''10plan.pdf'') = Some 1
   \<and> backup chain_renamed
       = Backup [(in_root ''10plan.pdf'', in_root ''0plan.pdf''),
                 (in_root ''0plan.pdf'', in_root ''plan.pdf'')]
   \<and> files (undo_renames willing True chain_renamed) (in_root ''10plan.pdf'') = Some 1
   \<and> files (undo_renames willing True chain_renamed) (in_root ''0plan.pdf'') = None
   \<and> backup (undo_renames willing True chain_renamed)
       = Backup [(in_root ''10plan.pdf'', in_root ''0plan.pdf'')]"
  by code_simp

text \<open>
  C4, amended. Take a batch of distinct files that exist, a file of it that the rename
  executor renames successfully (when its turn comes the target is free and the rename does
  not raise), and let the ledger be written. When undo runs afterwards, is confirmed and the
  system refuses nothing, and the original path of the file is unoccupied and no other ledger
  entry with an existing current path restores to it, then undo puts the file, with its
  content, at its exact original relative path and removes its key from the ledger; a ledger
  left without entries is deleted. The path the file was renamed to is left empty, provided
  that no ledger entry with an existing current path restores to that path.
\<close>

theorem rename_then_undo_restores:
  fixes w0 :: "'c disk"
  assumes batch: "ms = pre @ m # post"
      and dist: "distinct (sources ms)"
      and found: "\<forall>x \<in> set ms. path_exists (files w0) (relative_original_path (m_pdf_file x))"
      and free_target:
        "\<not> path_exists
            (r_files (rename_matches E pre
               \<lparr>r_files = files w0, rename_history = [], renamed_count = 0\<rparr>))
            (relative_new_path m)"
      and no_error:
        "\<not> rename_raises E (relative_original_path (m_pdf_file m)) (relative_new_path m)"
      and readable: "backup w0 \<noteq> Unreadable"
      and written: "\<not> write_raises E"
      and w1: "w1 = fst (perform_renaming E ms w0)"
      and free_original: "\<not> path_exists (files w1) (relative_original_path (m_pdf_file m))"
      and only:
        "\<forall>(k, v) \<in> set (ledger_pairs (backup w1)).
           v = relative_original_path (m_pdf_file m) \<and> path_exists (files w1) k
             \<longrightarrow> k = relative_new_path m"
      and undo_env: "refuses_nothing E'"
      and w2: "w2 = undo_renames E' True w1"
  shows "files w2 (relative_original_path (m_pdf_file m))
           = files w0 (relative_original_path (m_pdf_file m))
       \<and> path_exists (files w2) (relative_original_path (m_pdf_file m))
       \<and> relative_new_path m \<notin> ledger_keys (backup w2)
       \<and> (ledger_keys (backup w2) = {} \<longrightarrow> backup w2 = NoBackup)
       \<and> ((\<forall>(k, v) \<in> set (ledger_pairs (backup w1)).
              path_exists (files w1) k \<longrightarrow> v \<noteq> relative_new_path m)
            \<longrightarrow> \<not> path_exists (files w2) (relative_new_path m))"
proof -
  let ?init = "\<lparr>r_files = files w0, rename_history = [], renamed_count = 0\<rparr>"
  let ?o = "relative_original_path (m_pdf_file m)"
  let ?n = "relative_new_path m"
  let ?turn = "rename_matches E pre ?init"
  let ?after = "rename_one E m ?turn"
  let ?final = "rename_matches E ms ?init"
  \<comment> \<open>the rename pass\<close>
  from dist batch have o_pre: "?o \<notin> set (sources pre)"
    and post_pre: "\<forall>x \<in> set post. relative_original_path (m_pdf_file x) \<notin> set (sources pre)"
    by (auto simp: sources_def)
  from found batch obtain c where c: "files w0 ?o = Some c"
    by (auto simp: path_exists_def)
  then have "r_files ?init ?o = Some c" by simp
  from this o_pre have at_turn: "r_files ?turn ?o = Some c" by (rule rename_matches_bystander)
  from rename_one_success [OF free_target no_error at_turn]
  have n1: "r_files ?after ?n = Some c" and h1: "map_of (rename_history ?after) ?n = Some ?o"
    by simp_all
  have n_post: "?n \<notin> set (sources post)"
  proof
    assume "?n \<in> set (sources post)"
    then obtain x where x: "x \<in> set post" and nx: "?n = relative_original_path (m_pdf_file x)"
      by (auto simp: sources_def)
    from found batch x obtain cx where "files w0 (relative_original_path (m_pdf_file x)) = Some cx"
      by (auto simp: path_exists_def)
    then have "r_files ?init (relative_original_path (m_pdf_file x)) = Some cx" by simp
    from this post_pre x have "r_files ?turn (relative_original_path (m_pdf_file x)) = Some cx"
      by (auto intro: rename_matches_bystander)
    with nx free_target show False by (simp add: path_exists_def)
  qed
  have st: "?final = rename_matches E post ?after" by (simp add: batch rename_matches_append)
  from rename_matches_holds [OF n1 h1 n_post, of E] st
  have n2: "r_files ?final ?n = Some c" and h2: "map_of (rename_history ?final) ?n = Some ?o"
    by simp_all
  have hd: "distinct (map fst (rename_history ?final))"
    by (rule rename_matches_history_distinct) simp
  from h2 have mem_h: "(?n, ?o) \<in> set (rename_history ?final)" by (rule map_of_SomeD)
  then have h_ne: "rename_history ?final \<noteq> []" by auto
  \<comment> \<open>the ledger that is written\<close>
  obtain existing where ex: "distinct (map fst existing)"
    and b1: "backup w1 = Backup (dict_update existing (rename_history ?final))"
  proof (cases "backup w0")
    case NoBackup
    with h_ne written w1
    have "backup w1 = Backup (dict_update [] (rename_history ?final))"
      by (simp add: perform_renaming_def Let_def save_history_def)
    with that [of "[]"] show ?thesis by simp
  next
    case Unreadable
    with readable show ?thesis by simp
  next
    case (Backup pairs)
    with h_ne written w1
    have "backup w1 = Backup (dict_update (json_load pairs) (rename_history ?final))"
      by (simp add: perform_renaming_def Let_def save_history_def)
    moreover have "distinct (map fst (json_load pairs))"
      unfolding json_load_def by (rule distinct_dict_update) simp
    ultimately show ?thesis using that by blast
  qed
  let ?L = "dict_update existing (rename_history ?final)"
  from ex have Ld: "distinct (map fst ?L)" by (rule distinct_dict_update)
  from hd mem_h have "map_of ?L ?n = Some ?o" by (rule map_of_dict_update_new)
  then have mem_L: "(?n, ?o) \<in> set ?L" by (rule map_of_SomeD)
  from w1 have f1: "files w1 = r_files ?final" by (simp add: perform_renaming_files)
  with n2 have n_w1: "files w1 ?n = Some c" by simp
  \<comment> \<open>the undo pass\<close>
  let ?items = "filter (\<lambda>(cur, orig). path_exists (files w1) cur) ?L"
  from mem_L n_w1 have mem_i: "(?n, ?o) \<in> set ?items" by (simp add: path_exists_def)
  from Ld have id: "distinct (map fst ?items)" by (rule distinct_map_filter)
  from free_original have o_free: "files w1 ?o = None" by (simp add: path_exists_def)
  from free_original have o_key: "?o \<notin> fst ` set ?items" by auto
  from only b1 have only_i: "\<forall>(k, v) \<in> set ?items. v = ?o \<longrightarrow> k = ?n"
    by (auto simp: ledger_pairs_def)
  from revert_restores [where fs = "files w1" and rv = "[]", OF undo_env id mem_i n_w1 o_free
      o_key only_i]
  obtain fs' rv' where r: "revert_files E' ?items (files w1) [] = Inr (fs', rv')"
    and restored: "fs' ?o = Some c" and rv: "?n \<in> set rv'" by blast
  from mem_L have L_ne: "?L \<noteq> []" by (metis empty_iff list.set(1))
  from mem_i have i_ne: "?items \<noteq> []" by (metis empty_iff list.set(1))
  from Ld have jl: "json_load ?L = ?L" by (rule json_load_distinct)
  have "undo_renames E' True w1 =
          \<lparr>files = fs', backup = update_backup E' ?L rv' (backup w1)\<rparr>"
    using L_ne i_ne r by (simp add: undo_renames_def b1 jl Let_def)
  with w2 have fw2: "files w2 = fs'" and bw2: "backup w2 = update_backup E' ?L rv' (backup w1)"
    by simp_all
  from update_backup_willing [OF undo_env rv, of ?L "backup w1"] bw2
  have key: "?n \<notin> ledger_keys (backup w2)"
    and del: "ledger_keys (backup w2) = {} \<longrightarrow> backup w2 = NoBackup"
    by simp_all
  have vacated: "\<not> path_exists (files w2) ?n"
    if none: "\<forall>(k, v) \<in> set (ledger_pairs (backup w1)). path_exists (files w1) k \<longrightarrow> v \<noteq> ?n"
  proof -
    from none b1 have "\<forall>(k, v) \<in> set ?items. v \<noteq> ?n" by (auto simp: ledger_pairs_def)
    then have "?n \<notin> snd ` set ?items" by force
    from revert_vacates [OF undo_env r rv _ this] have "fs' ?n = None" by simp
    with fw2 show ?thesis by (simp add: path_exists_def)
  qed
  from fw2 restored c have "files w2 ?o = files w0 ?o" and "path_exists (files w2) ?o"
    by (simp_all add: path_exists_def)
  with key del vacated show ?thesis by blast
qed

theorem rename_then_undo_restores_witness:
  "[exact_match_of ''x'' ''5'', exact_match_of ''a'' ''7'', exact_match_of ''b'' ''8'']
     = [exact_match_of ''x'' ''5''] @ exact_match_of ''a'' ''7'' # [exact_match_of ''b'' ''8'']
   \<and> distinct (sources
        [exact_match_of ''x'' ''5'', exact_match_of ''a'' ''7'', exact_match_of ''b'' ''8''])
   \<and> refuses_nothing willing
   \<and> files (undo_renames willing True
        (fst (perform_renaming willing
           [exact_match_of ''x'' ''5'', exact_match_of ''a'' ''7'', exact_match_of ''b'' ''8'']
           busy_disk)))
        (relative_original_path (m_pdf_file (exact_match_of ''a'' ''7'')))
       = files busy_disk (relative_original_path (m_pdf_file (exact_match_of ''a'' ''7'')))
   \<and> path_exists (files (undo_renames willing True
        (fst (perform_renaming willing
           [exact_match_of ''x'' ''5'', exact_match_of ''a'' ''7'', exact_match_of ''b'' ''8'']
           busy_disk))))
        (relative_original_path (m_pdf_file (exact_match_of ''a'' ''7'')))
   \<and> relative_new_path (exact_match_of ''a'' ''7'')
       \<notin> ledger_keys (backup (undo_renames willing True
            (fst (perform_renaming willing
               [exact_match_of ''x'' ''5'', exact_match_of ''a'' ''7'', exact_match_of ''b'' ''8'']
               busy_disk))))
   \<and> path_exists (files (fst (perform_renaming willing
           [exact_match_of ''x'' ''5'', exact_match_of ''a'' ''7'', exact_match_of ''b'' ''8'']
           busy_disk)))
        (relative_new_path (exact_match_of ''a'' ''7''))
   \<and> \<not> path_exists (files (undo_renames willing True
        (fst (perform_renaming willing
           [exact_match_of ''x'' ''5'', exact_match_of ''a'' ''7'', exact_match_of ''b'' ''8'']
           busy_disk))))
        (relative_new_path (exact_match_of ''a'' ''7''))"
proof -
  let ?ms = "[exact_match_of ''x'' ''5'', exact_match_of ''a'' ''7'', exact_match_of ''b'' ''8'']"
  let ?m = "exact_match_of ''a'' ''7''"
  let ?w1 = "fst (perform_renaming willing ?ms busy_disk)"
  have batch: "?ms = [exact_match_of ''x'' ''5''] @ ?m # [exact_match_of ''b'' ''8'']" by simp
  have dist: "distinct (sources ?ms)" by code_simp
  have found: "\<forall>x \<in> set ?ms. path_exists (files busy_disk) (relative_original_path (m_pdf_file x))"
    by code_simp
  have free_target:
    "\<not> path_exists
        (r_files (rename_matches willing [exact_match_of ''x'' ''5'']
           \<lparr>r_files = files busy_disk, rename_history = [], renamed_count = 0\<rparr>))
        (relative_new_path ?m)"
    by code_simp
  have no_error:
    "\<not> rename_raises willing (relative_original_path (m_pdf_file ?m)) (relative_new_path ?m)"
    by (simp add: willing_def)
  have readable: "backup busy_disk \<noteq> Unreadable" by code_simp
  have written: "\<not> write_raises willing" by (simp add: willing_def)
  have free_original: "\<not> path_exists (files ?w1) (relative_original_path (m_pdf_file ?m))"
    by code_simp
  have only: "\<forall>(k, v) \<in> set (ledger_pairs (backup ?w1)).
           v = relative_original_path (m_pdf_file ?m) \<and> path_exists (files ?w1) k
             \<longrightarrow> k = relative_new_path ?m"
    by code_simp
  have undo_env: "refuses_nothing willing" by (simp add: refuses_nothing_def willing_def)
  have none: "\<forall>(k, v) \<in> set (ledger_pairs (backup ?w1)).
           path_exists (files ?w1) k \<longrightarrow> v \<noteq> relative_new_path ?m"
    by code_simp
  have renamed: "path_exists (files ?w1) (relative_new_path ?m)" by code_simp
  note t = rename_then_undo_restores [OF batch dist found free_target no_error readable written
      refl free_original only undo_env refl]
  from batch dist undo_env t none renamed show ?thesis by blast
qed


end
